theory Spec2Isabelle
  imports Main "HOL-Library.Sublist" "HOL-Library.Word"
begin

section \<open>Python strings\<close>

text \<open>
  A Python \<open>str\<close> is a sequence of Unicode code points and \<open>len\<close> counts code points,
  so a string is modelled as the list of its code points. ASCII text is written as an
  Isabelle string literal and converted with \<open>py\<close>; the few non-ASCII characters of
  \<open>app.py\<close> are given by their code point.
\<close>

type_synonym pystr = "nat list"

definition py :: "string \<Rightarrow> pystr" where
  "py s = map of_char s"

definition nl :: pystr where
  "nl = [10]"

text \<open>The failure marker U+274C, the first character of every string an \<open>except\<close>
  branch of \<open>inference\<close> returns.\<close>

definition cross_mark :: nat where
  "cross_mark = 10060"

text \<open>\<open>s.startswith(p)\<close>\<close>

definition startswith :: "pystr \<Rightarrow> pystr \<Rightarrow> bool" where
  "startswith s p = (take (length p) s = p)"

text \<open>\<open>s.replace(a, b)\<close> for one-character \<open>a\<close> and \<open>b\<close>\<close>

definition replace_char :: "nat \<Rightarrow> nat \<Rightarrow> pystr \<Rightarrow> pystr" where
  "replace_char a b s = map (\<lambda>c. if c = a then b else c) s"

text \<open>\<open>s.split(sep)\<close> for a one-character separator: one more piece than there are
  separators, empty pieces kept.\<close>

fun split_on :: "nat \<Rightarrow> pystr \<Rightarrow> pystr list" where
  "split_on sep [] = [[]]"
| "split_on sep (c # cs) =
     (if c = sep then [] # split_on sep cs
      else (case split_on sep cs of
              [] \<Rightarrow> [[c]]
            | piece # pieces \<Rightarrow> (c # piece) # pieces))"

text \<open>\<open>str.isspace\<close> on one code point, as CPython's \<open>_PyUnicode_IsWhitespace\<close> lists them.\<close>

definition isspace :: "nat \<Rightarrow> bool" where
  "isspace c =
     ((9 \<le> c \<and> c \<le> 13) \<or> (28 \<le> c \<and> c \<le> 32) \<or> c = 133 \<or> c = 160 \<or> c = 5760
      \<or> (8192 \<le> c \<and> c \<le> 8202) \<or> c = 8232 \<or> c = 8233 \<or> c = 8239 \<or> c = 8287
      \<or> c = 12288)"


definition strip :: "pystr \<Rightarrow> pystr" where
  "strip s = rev (dropWhile isspace (rev (dropWhile isspace s)))"

text \<open>\<open>sep.join(xs)\<close>\<close>

fun join :: "pystr \<Rightarrow> pystr list \<Rightarrow> pystr" where
  "join sep [] = []"
| "join sep [x] = x"
| "join sep (x # y # ys) = x @ sep @ join sep (y # ys)"

text \<open>\<open>str(n)\<close> for an \<open>int\<close>: decimal digits, with a minus sign below zero.\<close>

fun str_nat :: "nat \<Rightarrow> pystr" where
  "str_nat n = (if n < 10 then [48 + n] else str_nat (n div 10) @ [48 + n mod 10])"

declare str_nat.simps [simp del]

definition str_int :: "int \<Rightarrow> pystr" where
  "str_int i = (if i < 0 then 45 # str_nat (nat (- i)) else str_nat (nat i))"

section \<open>The text chunker\<close>

text \<open>
  \<open>chunk_text(text, max_chars)\<close>. The \<open>for\<close> loop over the sentences is \<open>chunk_loop\<close>,
  which carries the two variables the loop assigns: \<open>chunks\<close> and \<open>current_chunk\<close>.
\<close>

definition sentences_of :: "pystr \<Rightarrow> pystr list" where
  "sentences_of text = split_on 46 (replace_char 63 46 (replace_char 33 46 text))"

fun chunk_loop :: "int \<Rightarrow> pystr list \<Rightarrow> pystr list \<Rightarrow> pystr \<Rightarrow> pystr list \<times> pystr" where
  "chunk_loop max_chars [] chunks current_chunk = (chunks, current_chunk)"
| "chunk_loop max_chars (sentence # rest) chunks current_chunk =
     (if int (length current_chunk) + int (length sentence) < max_chars
      then chunk_loop max_chars rest chunks (current_chunk @ sentence @ [46])
      else chunk_loop max_chars rest
             (if current_chunk \<noteq> [] then chunks @ [strip current_chunk] else chunks)
             (sentence @ [46]))"

definition chunk_text :: "pystr \<Rightarrow> int \<Rightarrow> pystr list" where
  "chunk_text text max_chars =
     (if int (length text) \<le> max_chars then [text]
      else (case chunk_loop max_chars (sentences_of text) [] [] of
              (chunks, current_chunk) \<Rightarrow>
                if current_chunk \<noteq> [] then chunks @ [strip current_chunk] else chunks))"

section \<open>Python values and exceptions\<close>

text \<open>
  What \<open>response.json()\<close> can return: any JSON document as a Python object. A \<open>dict\<close> is
  the list of its items (a Python dict has one item for a key; a lookup takes the first).
  A \<open>float\<close> is kept as its 64 bits: the program never computes with one.
\<close>

datatype pyval =
    PNone
  | PBool bool
  | PInt int
  | PFloat "64 word"
  | PStr pystr
  | PList "pyval list"
  | PDict "(pystr \<times> pyval) list"

fun type_name :: "pyval \<Rightarrow> pystr" where
  "type_name PNone = py ''NoneType''"
| "type_name (PBool b) = py ''bool''"
| "type_name (PInt i) = py ''int''"
| "type_name (PFloat f) = py ''float''"
| "type_name (PStr s) = py ''str''"
| "type_name (PList xs) = py ''list''"
| "type_name (PDict items) = py ''dict''"

text \<open>
  The exceptions that can be raised inside the \<open>try\<close> of \<open>inference\<close>, by the class the
  \<open>except\<close> clauses tell apart, each with its text \<open>str(e)\<close>; \<open>HTTPError\<close> also has
  \<open>e.response.status_code\<close>. \<open>Exception\<close> is every other class (a JSON decoding error, a
  \<open>TypeError\<close>, an \<open>AttributeError\<close>).
\<close>

datatype exn =
    ConnectionError pystr
  | Timeout pystr
  | HTTPError int pystr
  | Exception pystr

text \<open>
  The exceptions that leave the two entry points uncaught: \<open>KeyError\<close> with the missing
  key, \<open>AttributeError\<close> with the type name and the attribute, \<open>ZeroDivisionError\<close>.
\<close>

datatype uncaught =
    KeyError pystr
  | AttributeError pystr pystr
  | ZeroDivisionError

text \<open>The texts CPython gives the errors that lines 185 to 188 can raise.\<close>

definition not_iterable :: "pystr \<Rightarrow> pystr" where
  "not_iterable ty = py ''argument of type '' @ [39] @ ty @ [39] @ py '' is not iterable''"

definition no_attribute :: "pystr \<Rightarrow> pystr \<Rightarrow> pystr" where
  "no_attribute ty attr =
     [39] @ ty @ [39] @ py '' object has no attribute '' @ [39] @ attr @ [39]"

definition not_subscriptable :: "pystr \<Rightarrow> pystr" where
  "not_subscriptable ty = [39] @ ty @ [39] @ py '' object is not subscriptable''"

text \<open>\<open>'message' in result\<close>: a key of a dict, an element of a list, a substring of a
  string; any other object is not iterable.\<close>

definition has_message :: "pyval \<Rightarrow> exn + bool" where
  "has_message result =
     (case result of
        PDict items \<Rightarrow> Inr (map_of items (py ''message'') \<noteq> None)
      | PList xs \<Rightarrow> Inr (PStr (py ''message'') \<in> set xs)
      | PStr s \<Rightarrow> Inr (sublist (py ''message'') s)
      | _ \<Rightarrow> Inl (Exception (not_iterable (type_name result))))"

text \<open>\<open>result['message']\<close>\<close>

definition get_message :: "pyval \<Rightarrow> exn + pyval" where
  "get_message result =
     (case result of
        PDict items \<Rightarrow>
          (case map_of items (py ''message'') of
             Some v \<Rightarrow> Inr v
           | None \<Rightarrow> Inl (Exception ([39] @ py ''message'' @ [39])))
      | PList xs \<Rightarrow> Inl (Exception (py ''list indices must be integers or slices, not str''))
      | PStr s \<Rightarrow> Inl (Exception (py ''string indices must be integers, not '' @ [39] @ py ''str'' @ [39]))
      | _ \<Rightarrow> Inl (Exception (not_subscriptable (type_name result))))"

text \<open>\<open>obj.get(key, default)\<close>: only a dict has the method.\<close>

definition dict_get :: "pyval \<Rightarrow> pystr \<Rightarrow> pyval \<Rightarrow> exn + pyval" where
  "dict_get obj key dflt =
     (case obj of
        PDict items \<Rightarrow> Inr (case map_of items key of Some v \<Rightarrow> v | None \<Rightarrow> dflt)
      | _ \<Rightarrow> Inl (Exception (no_attribute (type_name obj) (py ''get''))))"

section \<open>The model server and the page\<close>

text \<open>
  A POST is the URL, the \<open>json=\<close> payload and the timeout. \<open>requests.post\<close> either raises or
  returns a response; of a response the program reads the status code, what
  \<open>raise_for_status\<close> would put in its \<open>HTTPError\<close>, and what \<open>json()\<close> returns or raises.
\<close>

record request =
  req_url :: pystr
  req_json :: pyval
  req_timeout :: int

record response =
  status_code :: int
  http_error_text :: pystr
  json_result :: "exn + pyval"

datatype post_result = Raises exn | Responds response

text \<open>The server is outside the program: any function from the POSTs made so far and the
  POST made now to what that POST does.\<close>

type_synonym server = "request list \<Rightarrow> request \<Rightarrow> post_result"

text \<open>What the progress sink is told, by the Streamlit method called on it. A sink is only
  written to, and its methods return normally, as those of a Streamlit placeholder do.\<close>

datatype ui_event = Markdown pystr | Info pystr | Emptied

type_synonym placeholder = nat

text \<open>The effects of a run: the POSTs issued, in order, and what was shown on the page.\<close>

record world =
  posts :: "request list"
  display :: "(placeholder \<times> ui_event) list"

definition notify :: "placeholder \<Rightarrow> ui_event \<Rightarrow> world \<Rightarrow> world" where
  "notify p ev w = w\<lparr>display := display w @ [(p, ev)]\<rparr>"

definition requests_post :: "server \<Rightarrow> pystr \<Rightarrow> pyval \<Rightarrow> int \<Rightarrow> world \<Rightarrow> post_result \<times> world" where
  "requests_post srv u payload tmo w =
     (let r = \<lparr>req_url = u, req_json = payload, req_timeout = tmo\<rparr>
      in (srv (posts w) r, w\<lparr>posts := posts w @ [r]\<rparr>))"

definition MODEL_SERVER_URL :: pystr where
  "MODEL_SERVER_URL = py ''http://localhost:11434''"

section \<open>The client\<close>

definition steps :: "(pystr \<times> pystr) list" where
  "steps =
     [(128292 # py '' Tokenization'', py ''Breaking text into tokens...''),
      (128269 # py '' Text Analysis'', py ''Analyzing content structure...''),
      (129529 # py '' Preprocessing'', py ''Cleaning and normalizing text...''),
      (127807 # py '' Stemming'', py ''Reducing words to root forms...''),
      (129504 # py '' Neural Network'', py ''Processing through trained layers...''),
      (10024 # py '' Post-processing'', py ''Formatting final output...'')]"

definition step_markdown :: "pystr \<Rightarrow> pystr \<Rightarrow> pystr" where
  "step_markdown title desc =
     nl @ py ''            <div class='' @ [39] @ py ''process-step'' @ [39] @ py ''>'' @ nl
     @ py ''                '' @ title @ py '': '' @ desc @ nl
     @ py ''            </div>'' @ nl
     @ py ''        ''"

text \<open>\<open>show_processing_steps\<close>: one \<open>markdown\<close> call on the placeholder for each step (the
  \<open>time.sleep\<close> between them has no effect on the values).\<close>

definition show_processing_steps :: "placeholder \<Rightarrow> world \<Rightarrow> world" where
  "show_processing_steps step_placeholder w =
     foldl (\<lambda>w' (title, desc). notify step_placeholder (Markdown (step_markdown title desc)) w')
       w steps"

definition chat_url :: pystr where
  "chat_url = MODEL_SERVER_URL @ py ''/api/chat''"

definition generate_url :: pystr where
  "generate_url = MODEL_SERVER_URL @ py ''/api/generate''"

definition chat_payload :: "pystr \<Rightarrow> pystr \<Rightarrow> pyval" where
  "chat_payload model_name prompt =
     PDict [(py ''model'', PStr model_name),
            (py ''messages'', PList [PDict [(py ''role'', PStr (py ''user'')),
                                            (py ''content'', PStr prompt)]]),
            (py ''stream'', PBool False)]"

definition generate_payload :: "pystr \<Rightarrow> pystr \<Rightarrow> pyval" where
  "generate_payload model_name prompt =
     PDict [(py ''model'', PStr model_name),
            (py ''prompt'', PStr prompt),
            (py ''stream'', PBool False)]"

text \<open>\<open>response.raise_for_status()\<close>: an \<open>HTTPError\<close> for a 4xx or 5xx status.\<close>

definition raise_for_status :: "response \<Rightarrow> exn option" where
  "raise_for_status resp =
     (if 400 \<le> status_code resp \<and> status_code resp < 600
      then Some (HTTPError (status_code resp) (http_error_text resp)) else None)"

text \<open>Lines 185 to 188: the model output in a decoded response.\<close>

definition extract_output :: "pyval \<Rightarrow> exn + pyval" where
  "extract_output result =
     (case has_message result of
        Inl e \<Rightarrow> Inl e
      | Inr True \<Rightarrow>
          (case get_message result of
             Inl e \<Rightarrow> Inl e
           | Inr message \<Rightarrow> dict_get message (py ''content'') (PStr []))
      | Inr False \<Rightarrow> dict_get result (py ''response'') (PStr []))"

text \<open>Lines 181 to 188, what follows the one or two POSTs.\<close>

definition read_response :: "response \<Rightarrow> exn + pyval" where
  "read_response resp =
     (case raise_for_status resp of
        Some e \<Rightarrow> Inl e
      | None \<Rightarrow>
          (case json_result resp of
             Inl e \<Rightarrow> Inl e
           | Inr result \<Rightarrow> extract_output result))"

text \<open>The body of the \<open>try\<close> of \<open>inference\<close>: \<open>Inl\<close> is the exception raised in it.\<close>

definition inference_try ::
  "server \<Rightarrow> pystr \<Rightarrow> pystr \<Rightarrow> placeholder option \<Rightarrow> int \<Rightarrow> world \<Rightarrow> (exn + pyval) \<times> world" where
  "inference_try srv prompt model_name process_placeholder tmo w =
     (let w1 = (case process_placeholder of
                  Some p \<Rightarrow> show_processing_steps p w
                | None \<Rightarrow> w)
      in case requests_post srv chat_url (chat_payload model_name prompt) tmo w1 of
           (Raises e, w2) \<Rightarrow> (Inl e, w2)
         | (Responds resp, w2) \<Rightarrow>
             if status_code resp = 404
             then (case requests_post srv generate_url (generate_payload model_name prompt) tmo w2 of
                     (Raises e, w3) \<Rightarrow> (Inl e, w3)
                   | (Responds resp', w3) \<Rightarrow> (read_response resp', w3))
             else (read_response resp, w2))"

definition error_prefix :: pystr where
  "error_prefix = cross_mark # py '' Error: ''"

text \<open>The \<open>except\<close> clauses of \<open>inference\<close>, in their order.\<close>

fun failure_message :: "pystr \<Rightarrow> int \<Rightarrow> exn \<Rightarrow> pystr" where
  "failure_message model_name tmo (ConnectionError msg) =
     error_prefix @ py ''Model server is not running. Please start the model server.''"
| "failure_message model_name tmo (Timeout msg) =
     error_prefix @ py ''Model inference timed out after '' @ str_int tmo
       @ py '' seconds. Try reducing text length or number of questions.''"
| "failure_message model_name tmo (HTTPError status msg) =
     (if status = 404
      then error_prefix @ py ''Model '' @ [39] @ model_name @ [39]
             @ py '' not found in model repository.''
      else error_prefix @ msg)"
| "failure_message model_name tmo (Exception msg) = error_prefix @ msg"

definition inference ::
  "server \<Rightarrow> pystr \<Rightarrow> pystr \<Rightarrow> placeholder option \<Rightarrow> int \<Rightarrow> world \<Rightarrow> pyval \<times> world" where
  "inference srv prompt model_name process_placeholder tmo w =
     (case inference_try srv prompt model_name process_placeholder tmo w of
        (Inl e, w') \<Rightarrow> (PStr (failure_message model_name tmo e), w')
      | (Inr output, w') \<Rightarrow> (output, w'))"

section \<open>The orchestrator\<close>

definition length_instructions :: "(pystr \<times> pystr) list" where
  "length_instructions =
     [(py ''short'', py ''in 2-3 sentences''),
      (py ''medium'', py ''in 1 paragraph (4-6 sentences)''),
      (py ''long'', py ''in 2-3 paragraphs with key details'')]"

definition summary_prompt :: "pystr \<Rightarrow> pystr \<Rightarrow> pystr" where
  "summary_prompt instruction text =
     py ''Please provide a clear and concise summary of the following text '' @ instruction
       @ py '':'' @ nl @ nl
     @ py ''Text: '' @ text @ nl @ nl
     @ py ''Summary:''"

text \<open>\<open>generate_summary\<close>: \<open>length_instructions[summary_length]\<close> raises \<open>KeyError\<close> for a key
  that is not in the dict, before anything else is done.\<close>

definition generate_summary ::
  "server \<Rightarrow> pystr \<Rightarrow> pystr \<Rightarrow> pystr \<Rightarrow> placeholder option \<Rightarrow> world \<Rightarrow> (uncaught + pyval) \<times> world" where
  "generate_summary srv text summary_length model_name process_placeholder w =
     (case map_of length_instructions summary_length of
        None \<Rightarrow> (Inl (KeyError summary_length), w)
      | Some instruction \<Rightarrow>
          (case inference srv (summary_prompt instruction text) model_name process_placeholder 1000 w of
             (output, w') \<Rightarrow> (Inr output, w')))"

definition faq_format :: pystr where
  "faq_format =
     py '' frequently asked questions (FAQ) with their answers. Format each FAQ as:'' @ nl @ nl
     @ py ''Q: [Question]'' @ nl
     @ py ''A: [Answer]'' @ nl @ nl
     @ py ''Text: ''"

text \<open>The prompt of the long-text path, for one chunk.\<close>

definition section_prompt :: "int \<Rightarrow> pystr \<Rightarrow> pystr" where
  "section_prompt questions_per_chunk chunk =
     py ''Based on the following text section, generate '' @ str_int questions_per_chunk
     @ faq_format @ chunk @ nl @ nl @ py ''FAQ:''"

text \<open>The prompt of the short-text path.\<close>

definition faq_prompt :: "int \<Rightarrow> pystr \<Rightarrow> pystr" where
  "faq_prompt num_questions text =
     py ''Based on the following text, generate '' @ str_int num_questions
     @ faq_format @ text @ nl @ nl @ py ''FAQ:''"

definition section_info :: "nat \<Rightarrow> nat \<Rightarrow> pystr" where
  "section_info i n =
     128221 # py '' Processing section '' @ str_int (int i + 1) @ py ''/'' @ str_int (int n)
     @ py ''... This may take a while for long texts.''"

definition sink_info :: "placeholder option \<Rightarrow> pystr \<Rightarrow> world \<Rightarrow> world" where
  "sink_info process_placeholder msg w =
     (case process_placeholder of Some p \<Rightarrow> notify p (Info msg) w | None \<Rightarrow> w)"

definition sink_empty :: "placeholder option \<Rightarrow> world \<Rightarrow> world" where
  "sink_empty process_placeholder w =
     (case process_placeholder of Some p \<Rightarrow> notify p Emptied w | None \<Rightarrow> w)"

text \<open>\<open>combined_faq[:min(len(combined_faq), 10000)]\<close>\<close>

definition limit_length :: "pystr \<Rightarrow> pystr" where
  "limit_length combined_faq = take (min (length combined_faq) 10000) combined_faq"

text \<open>
  The \<open>for\<close> loop of the long-text path, from chunk \<open>i\<close> on (\<open>n\<close> is \<open>len(chunks)\<close>), with the
  lines after it as its last step. \<open>faq.startswith\<close> raises \<open>AttributeError\<close> when the client
  returned an object that is not a string.
\<close>

fun faq_loop ::
  "server \<Rightarrow> pystr \<Rightarrow> placeholder option \<Rightarrow> int \<Rightarrow> nat \<Rightarrow> nat \<Rightarrow> pystr list \<Rightarrow> pystr list \<Rightarrow> world
     \<Rightarrow> (uncaught + pyval) \<times> world" where
  "faq_loop srv model_name process_placeholder questions_per_chunk n i [] all_faqs w =
     (Inr (PStr (limit_length (join (nl @ nl) all_faqs))), sink_empty process_placeholder w)"
| "faq_loop srv model_name process_placeholder questions_per_chunk n i (chunk # rest) all_faqs w =
     (case inference srv (section_prompt questions_per_chunk chunk) model_name None 1000
             (sink_info process_placeholder (section_info i n) w) of
        (PStr faq, w') \<Rightarrow>
          if \<not> startswith faq [cross_mark]
          then faq_loop srv model_name process_placeholder questions_per_chunk n (Suc i) rest
                 (all_faqs @ [faq]) w'
          else (Inr (PStr faq), sink_empty process_placeholder w')
      | (other, w') \<Rightarrow> (Inl (AttributeError (type_name other) (py ''startswith'')), w'))"

definition generate_faq_smart ::
  "server \<Rightarrow> pystr \<Rightarrow> int \<Rightarrow> pystr \<Rightarrow> placeholder option \<Rightarrow> world \<Rightarrow> (uncaught + pyval) \<times> world" where
  "generate_faq_smart srv text num_questions model_name process_placeholder w =
     (if length text > 3000
      then (let chunks = chunk_text text 2500
            in if length chunks = 0 then (Inl ZeroDivisionError, w)
               else (let questions_per_chunk = max 2 (num_questions div int (length chunks))
                     in faq_loop srv model_name process_placeholder questions_per_chunk
                          (length chunks) 0 chunks [] w))
      else (case inference srv (faq_prompt num_questions text) model_name process_placeholder 1000 w of
              (output, w') \<Rightarrow> (Inr output, w')))"

section \<open>Observing a run\<close>

text \<open>The POST that \<open>inference\<close> makes first, and the one it makes after a 404.\<close>

definition chat_request :: "pystr \<Rightarrow> pystr \<Rightarrow> int \<Rightarrow> request" where
  "chat_request model_name prompt tmo =
     \<lparr>req_url = chat_url, req_json = chat_payload model_name prompt, req_timeout = tmo\<rparr>"

definition generate_request :: "pystr \<Rightarrow> pystr \<Rightarrow> int \<Rightarrow> request" where
  "generate_request model_name prompt tmo =
     \<lparr>req_url = generate_url, req_json = generate_payload model_name prompt, req_timeout = tmo\<rparr>"

text \<open>Every call of \<open>inference\<close> POSTs to \<open>/api/chat\<close> once, before anything else it may
  POST, so the calls of the client are counted by the chat POSTs in the log.\<close>

definition is_chat :: "request \<Rightarrow> bool" where
  "is_chat r = (req_url r = chat_url)"

definition start :: world where
  "start = \<lparr>posts = [], display = []\<rparr>"

text \<open>The POSTs issued during a run that leads from \<open>w\<close> to \<open>w'\<close>, and among them the
  first POST of each call of the client.\<close>

definition issued :: "world \<Rightarrow> world \<Rightarrow> request list" where
  "issued w w' = drop (length (posts w)) (posts w')"

definition client_calls :: "world \<Rightarrow> world \<Rightarrow> request list" where
  "client_calls w w' = filter is_chat (issued w w')"

text \<open>What the client returns for a list of prompts when it is called for one after the
  other, as the long-text path calls it (no sink, timeout 1000).\<close>

fun client_run :: "server \<Rightarrow> pystr \<Rightarrow> pystr list \<Rightarrow> world \<Rightarrow> pyval list \<times> world" where
  "client_run srv model_name [] w = ([], w)"
| "client_run srv model_name (prompt # prompts) w =
     (case inference srv prompt model_name None 1000 w of
        (output, w') \<Rightarrow>
          (case client_run srv model_name prompts w' of
             (outputs, w'') \<Rightarrow> (output # outputs, w'')))"

text \<open>A call of the client succeeded, as the loop of the long-text path judges it, when it
  returned a string that does not start with the cross mark. Any other return stops the
  loop: a string with the mark is returned as the failure, an object that is not a string
  makes \<open>faq.startswith\<close> raise.\<close>

definition succeeded :: "pyval \<Rightarrow> bool" where
  "succeeded output =
     (case output of PStr s \<Rightarrow> \<not> startswith s [cross_mark] | _ \<Rightarrow> False)"

section \<open>Example servers and texts\<close>

text \<open>A server that answers every POST with status 200 and the same chat message.\<close>

definition chat_reply :: "pystr \<Rightarrow> response" where
  "chat_reply content =
     \<lparr>status_code = 200, http_error_text = [],
      json_result = Inr (PDict [(py ''message'',
                                 PDict [(py ''role'', PStr (py ''assistant'')),
                                        (py ''content'', PStr content)])])\<rparr>"

definition answering :: "pystr \<Rightarrow> server" where
  "answering content = (\<lambda>log r. Responds (chat_reply content))"

text \<open>A server that cannot be reached.\<close>

definition unreachable :: server where
  "unreachable = (\<lambda>log r. Raises (ConnectionError (py ''Connection refused'')))"

text \<open>A server without the chat route: 404 for a POST to \<open>/api/chat\<close>, and for any other
  POST status 200 with the same \<open>response\<close> field.\<close>

definition not_found :: response where
  "not_found =
     \<lparr>status_code = 404, http_error_text = py ''404 Client Error: Not Found'',
      json_result = Inr (PDict [(py ''error'', PStr (py ''not found''))])\<rparr>"

definition generate_reply :: "pystr \<Rightarrow> response" where
  "generate_reply content =
     \<lparr>status_code = 200, http_error_text = [],
      json_result = Inr (PDict [(py ''response'', PStr content)])\<rparr>"

definition generate_only :: "pystr \<Rightarrow> server" where
  "generate_only content =
     (\<lambda>log r. if req_url r = chat_url then Responds not_found
               else Responds (generate_reply content))"

text \<open>A server that answers the first POST it gets and times out on every later one.\<close>

definition flaky :: server where
  "flaky = (\<lambda>log r. if log = [] then Responds (chat_reply (py ''Q: x''))
                     else Raises (Timeout (py ''Read timed out'')))"

text \<open>A model whose second answer starts with the cross mark.\<close>

definition crossing :: server where
  "crossing = (\<lambda>log r. if log = [] then Responds (chat_reply (py ''Q: x''))
                        else Responds (chat_reply (cross_mark # py '' is not an answer'')))"

text \<open>A text of 3001 letters with no sentence terminator.\<close>

definition long_word :: pystr where
  "long_word = replicate 3001 97"

text \<open>A text of 3101 characters whose first sentence has exactly 2500 characters.\<close>

definition boundary_text :: pystr where
  "boundary_text = replicate 2500 97 @ [46] @ replicate 600 98"


text \<open>Three sentences of 2000 letters: 6002 characters.\<close>

definition three_sentences :: pystr where
  "three_sentences = replicate 2000 97 @ [46] @ replicate 2000 98 @ [46] @ replicate 2000 99"

text \<open>The three chunks of \<open>three_sentences\<close>.\<close>

definition chunk_a :: pystr where
  "chunk_a = replicate 2000 97 @ [46]"

definition chunk_b :: pystr where
  "chunk_b = replicate 2000 98 @ [46]"

definition chunk_c :: pystr where
  "chunk_c = replicate 2000 99 @ [46]"

section \<open>Reading the sentences back from the chunks\<close>

text \<open>
  The buffer \<open>current_chunk\<close> always holds a group of sentences, each followed by the
  period the loop appends: \<open>render\<close> of the group. \<open>sentences_in_chunk\<close> reads the sentences
  back from a chunk: the last period is removed and the rest is split at the periods.
\<close>

definition render :: "pystr list \<Rightarrow> pystr" where
  "render g = concat (map (\<lambda>s. s @ [46]) g)"


section \<open>Facts about the string functions\<close>

lemma limit_length_take: "limit_length s = take 10000 s"
  by (simp add: limit_length_def min_def)

lemma length_limit_length: "length (limit_length s) \<le> 10000"
  by (simp add: limit_length_def)

lemma startswith_cross: "startswith s [cross_mark] = (s \<noteq> [] \<and> hd s = cross_mark)"
  by (cases s) (auto simp: startswith_def)

lemma split_on_no_sep: "sep \<notin> set s \<Longrightarrow> split_on sep s = [s]"
  by (induction s) auto

lemma split_on_append_sep:
  "sep \<notin> set a \<Longrightarrow> split_on sep (a @ sep # b) = a # split_on sep b"
  by (induction a) auto

lemma replace_char_absent: "a \<notin> set s \<Longrightarrow> replace_char a b s = s"
  by (induction s) (auto simp: replace_char_def)

lemma strip_clean:
  "s \<noteq> [] \<Longrightarrow> \<not> isspace (hd s) \<Longrightarrow> \<not> isspace (last s) \<Longrightarrow> strip s = s"
proof -
  assume ne: "s \<noteq> []" and h: "\<not> isspace (hd s)" and l: "\<not> isspace (last s)"
  from ne h have a: "dropWhile isspace s = s"
    by (cases s) auto
  from ne l have b: "dropWhile isspace (rev s) = rev s"
    by (cases "rev s") (auto simp: last_rev hd_rev)
  show ?thesis by (simp add: strip_def a b)
qed

section \<open>Evaluating the examples\<close>

lemma chunk_text_one_sentence:
  assumes "s \<noteq> []" "\<not> isspace (hd s)" "46 \<notin> set s" "33 \<notin> set s" "63 \<notin> set s"
    and "max_chars < int (length s)"
  shows "chunk_text s max_chars = [s @ [46]]"
proof -
  have r: "replace_char 63 46 (replace_char 33 46 s) = s"
    using assms(4,5) by (simp add: replace_char_absent)
  have "sentences_of s = [s]"
    using assms(3) by (simp add: sentences_of_def r split_on_no_sep)
  moreover have "strip (s @ [46]) = s @ [46]"
    using assms(1,2) by (intro strip_clean) (auto simp: isspace_def)
  ultimately show ?thesis
    using assms(6) by (simp add: chunk_text_def)
qed

lemma length_long_word: "length long_word = 3001"
  by (simp add: long_word_def)

lemma chunk_text_long_word: "chunk_text long_word 2500 = [long_word @ [46]]"
  by (rule chunk_text_one_sentence) (simp_all add: long_word_def isspace_def)

lemma inference_answering:
  "inference (answering s) prompt model_name None tmo w
     = (PStr s, w\<lparr>posts := posts w @ [chat_request model_name prompt tmo]\<rparr>)"
  by (simp add: inference_def inference_try_def requests_post_def answering_def chat_reply_def
      read_response_def raise_for_status_def extract_output_def has_message_def get_message_def
      dict_get_def py_def chat_request_def)

lemma not_cross_qx: "\<not> startswith (py ''Q: x'') [cross_mark]"
  by (simp add: startswith_def py_def cross_mark_def)

lemma gen_long_word:
  "\<not> startswith r [cross_mark] \<Longrightarrow>
   fst (generate_faq_smart (answering r) long_word n m None start) = Inr (PStr (take 10000 r))"
  by (simp add: generate_faq_smart_def length_long_word chunk_text_long_word inference_answering
      limit_length_take sink_info_def)

section \<open>The length cap of the FAQ output\<close>

lemma faq_loop_cap:
  "fst (faq_loop srv model_name ph q n i chunks all_faqs w) = Inr (PStr s)
   \<Longrightarrow> \<not> startswith s [cross_mark] \<Longrightarrow> length s \<le> 10000"
proof (induction chunks arbitrary: i all_faqs w)
  case Nil
  then show ?case using length_limit_length by auto
next
  case (Cons chunk rest)
  then show ?case
    by (auto split: prod.splits pyval.splits if_splits)
qed

text \<open>
  C1 (as the code has it). For a text of more than 3000 characters, a string that
  \<open>generate_faq_smart\<close> returns and that is not a failure (does not start with the cross
  mark) has at most 10000 characters. For a text of at most 3000 characters the result is
  what the one call of the client returned, whatever its length.
\<close>

theorem faq_long_text_capped:
  "(3000 < length text \<longrightarrow>
      fst (generate_faq_smart srv text num_questions model_name ph w) = Inr (PStr s) \<longrightarrow>
      \<not> startswith s [cross_mark] \<longrightarrow> length s \<le> 10000)
   \<and> (length text \<le> 3000 \<longrightarrow>
        fst (generate_faq_smart srv text num_questions model_name ph w)
          = Inr (fst (inference srv (faq_prompt num_questions text) model_name ph 1000 w)))"
proof (intro conjI impI)
  assume "3000 < length text"
    and "fst (generate_faq_smart srv text num_questions model_name ph w) = Inr (PStr s)"
    and "\<not> startswith s [cross_mark]"
  then show "length s \<le> 10000"
    using faq_loop_cap
    by (auto simp: generate_faq_smart_def Let_def split: if_splits)
next
  assume "length text \<le> 3000"
  then show "fst (generate_faq_smart srv text num_questions model_name ph w)
          = Inr (fst (inference srv (faq_prompt num_questions text) model_name ph 1000 w))"
    by (simp add: generate_faq_smart_def split: prod.splits)
qed

theorem faq_long_text_capped_witness:
  "3000 < length long_word
   \<and> fst (generate_faq_smart (answering (py ''Q: x'')) long_word 5 (py ''m'') None start)
       = Inr (PStr (py ''Q: x''))
   \<and> \<not> startswith (py ''Q: x'') [cross_mark]
   \<and> length (py ''Q: x'') \<le> 10000
   \<and> length (py ''Hello world.'') \<le> 3000
   \<and> fst (generate_faq_smart (answering (py ''Q: x'')) (py ''Hello world.'') 5 (py ''m'') None start)
       = Inr (fst (inference (answering (py ''Q: x'')) (faq_prompt 5 (py ''Hello world.''))
                     (py ''m'') None 1000 start))"
proof -
  have a: "3000 < length long_word"
    by (simp add: length_long_word)
  have b: "fst (generate_faq_smart (answering (py ''Q: x'')) long_word 5 (py ''m'') None start)
       = Inr (PStr (py ''Q: x''))"
    using gen_long_word [OF not_cross_qx] by (simp add: py_def)
  have c: "length (py ''Q: x'') \<le> 10000"
    using faq_long_text_capped [THEN conjunct1, rule_format, OF a b not_cross_qx] .
  have d: "length (py ''Hello world.'') \<le> 3000"
    by (simp add: py_def)
  have e: "fst (generate_faq_smart (answering (py ''Q: x'')) (py ''Hello world.'') 5 (py ''m'') None start)
       = Inr (fst (inference (answering (py ''Q: x'')) (faq_prompt 5 (py ''Hello world.''))
                     (py ''m'') None 1000 start))"
    using faq_long_text_capped [THEN conjunct2, rule_format, OF d] .
  show ?thesis
    using a b c d e not_cross_qx by blast
qed

text \<open>
  C1 as stated fails on the short-text path: the text \<open>Hello world.\<close> and a model that
  answers with 10001 letters give a result of 10001 characters that is not a failure.
\<close>

theorem faq_short_text_uncapped:
  "length (py ''Hello world.'') \<le> 3000
   \<and> fst (generate_faq_smart (answering (replicate 10001 97)) (py ''Hello world.'') 5 (py ''m'') None start)
       = Inr (PStr (replicate 10001 97))
   \<and> \<not> startswith (replicate 10001 97) [cross_mark]
   \<and> \<not> length (replicate 10001 97) \<le> 10000"
proof -
  have a: "length (py ''Hello world.'') \<le> 3000"
    by (simp add: py_def)
  have b: "fst (generate_faq_smart (answering (replicate 10001 97)) (py ''Hello world.'') 5 (py ''m'') None start)
       = Inr (PStr (replicate 10001 97))"
    using a by (simp add: generate_faq_smart_def inference_answering)
  have c: "\<not> startswith (replicate 10001 97) [cross_mark]"
    by (simp add: startswith_def cross_mark_def)
  show ?thesis
    using a b c by simp
qed

section \<open>The size of the chunks\<close>

lemma length_strip: "length (strip s) \<le> length s"
proof -
  have "length (strip s) = length (dropWhile isspace (rev (dropWhile isspace s)))"
    by (simp add: strip_def)
  also have "\<dots> \<le> length (rev (dropWhile isspace s))"
    by (rule length_dropWhile_le)
  also have "\<dots> \<le> length s"
    by (simp add: length_dropWhile_le)
  finally show ?thesis .
qed

lemma chunk_loop_bound:
  assumes "chunk_loop m ss chunks cur = (chunks', cur')"
    and "\<forall>c\<in>set chunks. int (length c) \<le> m \<or> (\<exists>s\<in>S. m \<le> int (length s) \<and> c = strip (s @ [46]))"
    and "cur = [] \<or> int (length cur) \<le> m \<or> (\<exists>s\<in>S. m \<le> int (length s) \<and> cur = s @ [46])"
    and "set ss \<subseteq> S"
  shows "(\<forall>c\<in>set chunks'. int (length c) \<le> m \<or> (\<exists>s\<in>S. m \<le> int (length s) \<and> c = strip (s @ [46])))
       \<and> (cur' = [] \<or> int (length cur') \<le> m \<or> (\<exists>s\<in>S. m \<le> int (length s) \<and> cur' = s @ [46]))"
  using assms
proof (induction ss arbitrary: chunks cur)
  case Nil
  then show ?case by simp
next
  case (Cons s ss)
  have sS: "s \<in> S" and ssS: "set ss \<subseteq> S" using Cons.prems(4) by auto
  show ?case
  proof (cases "int (length cur) + int (length s) < m")
    case True
    then have run: "chunk_loop m ss chunks (cur @ s @ [46]) = (chunks', cur')"
      using Cons.prems(1) by simp
    have "int (length (cur @ s @ [46])) \<le> m" using True by simp
    then show ?thesis
      using Cons.IH [OF run Cons.prems(2) _ ssS] by blast
  next
    case False
    let ?chunks = "if cur \<noteq> [] then chunks @ [strip cur] else chunks"
    have run: "chunk_loop m ss ?chunks (s @ [46]) = (chunks', cur')"
      using Cons.prems(1) False by simp
    have stripped: "cur \<noteq> [] \<Longrightarrow> int (length (strip cur)) \<le> m \<or> (\<exists>s\<in>S. m \<le> int (length s) \<and> strip cur = strip (s @ [46]))"
    proof -
      assume "cur \<noteq> []"
      with Cons.prems(3) consider "int (length cur) \<le> m" | "\<exists>s\<in>S. m \<le> int (length s) \<and> cur = s @ [46]"
        by blast
      then show ?thesis
      proof cases
        case 1
        then show ?thesis using length_strip [of cur] by linarith
      next
        case 2
        then show ?thesis by blast
      qed
    qed
    have a: "\<forall>c\<in>set ?chunks. int (length c) \<le> m \<or> (\<exists>s\<in>S. m \<le> int (length s) \<and> c = strip (s @ [46]))"
      using Cons.prems(2) stripped by auto
    have b: "s @ [46] = [] \<or> int (length (s @ [46])) \<le> m \<or> (\<exists>t\<in>S. m \<le> int (length t) \<and> s @ [46] = t @ [46])"
    proof (cases "int (length s) + 1 \<le> m")
      case True
      then show ?thesis by simp
    next
      case False
      then have "m \<le> int (length s)" by linarith
      with sS show ?thesis by blast
    qed
    show ?thesis
      using Cons.IH [OF run a b ssS] .
  qed
qed

lemma sentences_boundary_text: "sentences_of boundary_text = [replicate 2500 97, replicate 600 98]"
  by (simp add: sentences_of_def boundary_text_def replace_char_def split_on_append_sep split_on_no_sep)

lemma strip_letters: "n \<noteq> 0 \<Longrightarrow> \<not> isspace c \<Longrightarrow> strip (replicate n c @ [46]) = replicate n c @ [46]"
  by (rule strip_clean) (simp_all add: isspace_def)

lemma length_boundary_text: "length boundary_text = 3101"
  by (simp add: boundary_text_def)

lemma chunk_text_boundary_text:
  "chunk_text boundary_text 2500 = [replicate 2500 97 @ [46], replicate 600 98 @ [46]]"
  by (simp add: chunk_text_def length_boundary_text sentences_boundary_text strip_letters isspace_def)

text \<open>
  C5 (as the code has it). Every chunk that \<open>chunk_text\<close> returns has at most \<open>max_chars\<close>
  characters, except a chunk that is one sentence with its appended period (stripped)
  where the sentence has at least \<open>max_chars\<close> characters: such a sentence is not split.
\<close>

theorem chunk_text_bound:
  "c \<in> set (chunk_text text max_chars) \<Longrightarrow>
   int (length c) \<le> max_chars
   \<or> (\<exists>s\<in>set (sentences_of text). max_chars \<le> int (length s) \<and> c = strip (s @ [46]))"
proof (cases "int (length text) \<le> max_chars")
  case True
  assume "c \<in> set (chunk_text text max_chars)"
  with True show ?thesis by (simp add: chunk_text_def)
next
  case False
  assume c: "c \<in> set (chunk_text text max_chars)"
  obtain chunks cur where run: "chunk_loop max_chars (sentences_of text) [] [] = (chunks, cur)"
    by (cases "chunk_loop max_chars (sentences_of text) [] []")
  have inv: "(\<forall>c\<in>set chunks. int (length c) \<le> max_chars \<or> (\<exists>s\<in>set (sentences_of text). max_chars \<le> int (length s) \<and> c = strip (s @ [46])))
       \<and> (cur = [] \<or> int (length cur) \<le> max_chars \<or> (\<exists>s\<in>set (sentences_of text). max_chars \<le> int (length s) \<and> cur = s @ [46]))"
    by (rule chunk_loop_bound [OF run]) simp_all
  from c False run have "c \<in> set chunks \<or> (cur \<noteq> [] \<and> c = strip cur)"
    by (auto simp: chunk_text_def split: if_splits)
  then show ?thesis
  proof
    assume "c \<in> set chunks"
    with inv show ?thesis by blast
  next
    assume h: "cur \<noteq> [] \<and> c = strip cur"
    with inv consider "int (length cur) \<le> max_chars"
      | "\<exists>s\<in>set (sentences_of text). max_chars \<le> int (length s) \<and> cur = s @ [46]"
      by blast
    then show ?thesis
    proof cases
      case 1
      then show ?thesis using h length_strip [of cur] by auto
    next
      case 2
      then show ?thesis using h by blast
    qed
  qed
qed

theorem chunk_text_bound_witness:
  "replicate 2500 97 @ [46] \<in> set (chunk_text boundary_text 2500)
   \<and> (int (length (replicate 2500 (97::nat) @ [46])) \<le> 2500
      \<or> (\<exists>s\<in>set (sentences_of boundary_text).
            2500 \<le> int (length s) \<and> replicate 2500 97 @ [46] = strip (s @ [46])))"
proof -
  have a: "replicate 2500 97 @ [46] \<in> set (chunk_text boundary_text 2500)"
    by (simp add: chunk_text_boundary_text)
  show ?thesis
    using a chunk_text_bound [OF a] by blast
qed

text \<open>
  C5 as stated fails for a sentence of exactly \<open>max_chars\<close> characters: with
  \<open>max_chars = 2500\<close> the first chunk of \<open>boundary_text\<close> has 2501 characters, and neither
  sentence of the text is longer than 2500.
\<close>

theorem oversized_chunk_of_sentence_not_longer:
  "chunk_text boundary_text 2500 = [replicate 2500 97 @ [46], replicate 600 98 @ [46]]
   \<and> sentences_of boundary_text = [replicate 2500 97, replicate 600 98]
   \<and> \<not> int (length (replicate 2500 (97::nat) @ [46])) \<le> 2500
   \<and> \<not> 2500 < int (length (replicate 2500 (97::nat)))
   \<and> \<not> 2500 < int (length (replicate 600 (98::nat)))"
  by (simp add: chunk_text_boundary_text sentences_boundary_text)


section \<open>The chunks keep the sentences\<close>

lemma split_on_not_Nil: "split_on sep s \<noteq> []"
  by (induction s) (auto split: list.splits)


lemma render_Nil: "render [] = []"
  by (simp add: render_def)

lemma render_Cons: "render (s # g) = s @ 46 # render g"
  by (simp add: render_def)

lemma render_append: "render (g @ h) = render g @ render h"
  by (simp add: render_def)

lemma render_empty: "(render g = []) = (g = [])"
  by (cases g) (simp_all add: render_def)








lemma chunk_loop_groups:
  "chunk_loop m ss chunks (render g) = (chunks', cur') \<Longrightarrow>
   \<exists>gs g'. chunks' = chunks @ map (\<lambda>x. strip (render x)) gs \<and> cur' = render g'
      \<and> [] \<notin> set gs \<and> concat gs @ g' = g @ ss \<and> (g @ ss \<noteq> [] \<longrightarrow> g' \<noteq> [])"
proof (induction ss arbitrary: chunks g)
  case Nil
  then have "chunks' = chunks @ map (\<lambda>x. strip (render x)) [] \<and> cur' = render g
      \<and> [] \<notin> set [] \<and> concat [] @ g = g @ [] \<and> (g @ [] \<noteq> [] \<longrightarrow> g \<noteq> [])"
    by simp
  then show ?case by blast
next
  case (Cons s ss)
  show ?case
  proof (cases "int (length (render g)) + int (length s) < m")
    case True
    then have "chunk_loop m ss chunks (render (g @ [s])) = (chunks', cur')"
      using Cons.prems by (simp add: render_append render_Cons render_Nil)
    from Cons.IH [OF this] show ?thesis by simp
  next
    case False
    show ?thesis
    proof (cases "g = []")
      case True
      then have "chunk_loop m ss chunks (render [s]) = (chunks', cur')"
        using Cons.prems False by (simp add: render_Cons render_Nil)
      from Cons.IH [OF this] True show ?thesis by simp
    next
      case ne: False
      then have "chunk_loop m ss (chunks @ [strip (render g)]) (render [s]) = (chunks', cur')"
        using Cons.prems False by (simp add: render_Cons render_Nil render_empty)
      from Cons.IH [OF this] obtain gs g' where
        h: "chunks' = (chunks @ [strip (render g)]) @ map (\<lambda>x. strip (render x)) gs"
           "cur' = render g'" "[] \<notin> set gs" "concat gs @ g' = [s] @ ss" "g' \<noteq> []"
        by auto
      have "chunks' = chunks @ map (\<lambda>x. strip (render x)) (g # gs) \<and> cur' = render g'
        \<and> [] \<notin> set (g # gs) \<and> concat (g # gs) @ g' = g @ s # ss \<and> (g @ s # ss \<noteq> [] \<longrightarrow> g' \<noteq> [])"
        using h ne by auto
      then show ?thesis by blast
    qed
  qed
qed

lemma chunk_text_groups:
  assumes "max_chars < int (length text)"
  shows "\<exists>groups. chunk_text text max_chars = map (\<lambda>g. strip (render g)) groups
     \<and> [] \<notin> set groups \<and> concat groups = sentences_of text
     \<and> groups \<noteq> []
     \<and> render (last groups) = snd (chunk_loop max_chars (sentences_of text) [] [])"
proof -
  obtain chunks cur where run: "chunk_loop max_chars (sentences_of text) [] [] = (chunks, cur)"
    by (cases "chunk_loop max_chars (sentences_of text) [] []")
  then have "chunk_loop max_chars (sentences_of text) [] (render []) = (chunks, cur)"
    by (simp add: render_Nil)
  from chunk_loop_groups [OF this] obtain gs g' where
    h: "chunks = map (\<lambda>x. strip (render x)) gs" "cur = render g'" "[] \<notin> set gs"
       "concat gs @ g' = sentences_of text" "sentences_of text \<noteq> [] \<longrightarrow> g' \<noteq> []"
    by auto
  have ne: "g' \<noteq> []"
    using h(5) split_on_not_Nil by (simp add: sentences_of_def)
  then have "cur \<noteq> []" using h(2) by (simp add: render_empty)
  then have "chunk_text text max_chars = map (\<lambda>g. strip (render g)) (gs @ [g'])"
    using assms run h by (simp add: chunk_text_def)
  moreover have "[] \<notin> set (gs @ [g'])" using h(3) ne by auto
  moreover have "concat (gs @ [g']) = sentences_of text" using h(4) by simp
  moreover have "render (last (gs @ [g'])) = snd (chunk_loop max_chars (sentences_of text) [] [])"
    using run h(2) by simp
  ultimately show ?thesis by blast
qed














section \<open>The POSTs of the client\<close>

lemma posts_notify: "posts (notify p ev w) = posts w"
  by (simp add: notify_def)

lemma posts_sink_info: "posts (sink_info ph msg w) = posts w"
  by (simp add: sink_info_def posts_notify split: option.splits)

lemma posts_sink_empty: "posts (sink_empty ph w) = posts w"
  by (simp add: sink_empty_def posts_notify split: option.splits)

lemma posts_foldl_notify:
  "posts (foldl (\<lambda>w' (title, desc). notify p (Markdown (f title desc)) w') w xs) = posts w"
  by (induction xs arbitrary: w) (auto simp: posts_notify)

lemma posts_show_processing_steps: "posts (show_processing_steps p w) = posts w"
  by (simp add: show_processing_steps_def posts_foldl_notify)

lemma urls_differ: "generate_url \<noteq> chat_url"
  by (simp add: generate_url_def chat_url_def py_def)

lemma is_chat_chat_request: "is_chat (chat_request m p t)"
  by (simp add: is_chat_def chat_request_def)

lemma not_is_chat_generate_request: "\<not> is_chat (generate_request m p t)"
  by (simp add: is_chat_def generate_request_def urls_differ)

text \<open>The exception or output of the \<open>try\<close> body and the POSTs it makes, from the log alone.\<close>

lemma inference_try_log:
  "fst (inference_try srv p m ph t w) =
     (case srv (posts w) (chat_request m p t) of
        Raises e \<Rightarrow> Inl e
      | Responds resp \<Rightarrow>
          if status_code resp = 404
          then (case srv (posts w @ [chat_request m p t]) (generate_request m p t) of
                  Raises e \<Rightarrow> Inl e
                | Responds resp' \<Rightarrow> read_response resp')
          else read_response resp)"
  by (simp add: inference_try_def requests_post_def chat_request_def generate_request_def
      posts_show_processing_steps Let_def
      split: option.splits post_result.splits prod.splits)

lemma inference_try_posts:
  "posts (snd (inference_try srv p m ph t w)) =
     posts w @
     (case srv (posts w) (chat_request m p t) of
        Raises e \<Rightarrow> [chat_request m p t]
      | Responds resp \<Rightarrow>
          if status_code resp = 404
          then [chat_request m p t, generate_request m p t]
          else [chat_request m p t])"
  by (simp add: inference_try_def requests_post_def chat_request_def generate_request_def
      posts_show_processing_steps Let_def
      split: option.splits post_result.splits prod.splits)


lemma inference_fst:
  "fst (inference srv p m ph t w) =
     (case fst (inference_try srv p m ph t w) of
        Inl e \<Rightarrow> PStr (failure_message m t e)
      | Inr output \<Rightarrow> output)"
  by (simp add: inference_def split: prod.splits sum.splits)

lemma inference_posts:
  "posts (snd (inference srv p m ph t w)) = posts (snd (inference_try srv p m ph t w))"
  by (simp add: inference_def split: prod.splits sum.splits)

lemma inference_cong:
  assumes "posts w = posts v"
  shows "fst (inference srv p m ph t w) = fst (inference srv p m ph' t v)"
    and "posts (snd (inference srv p m ph t w)) = posts (snd (inference srv p m ph' t v))"
  using assms
  by (simp_all add: inference_fst inference_posts inference_try_log inference_try_posts
      cong: post_result.case_cong if_cong)

lemma issued_append: "posts w' = posts w @ new \<Longrightarrow> issued w w' = new"
  by (simp add: issued_def)

lemma inference_new_posts:
  "\<exists>new. posts (snd (inference srv p m ph t w)) = posts w @ new
     \<and> filter is_chat new = [chat_request m p t]"
  by (auto simp: inference_posts inference_try_posts is_chat_chat_request
      not_is_chat_generate_request split: post_result.splits)

lemma client_calls_inference:
  "client_calls w (snd (inference srv p m ph t w)) = [chat_request m p t]"
  using inference_new_posts [of srv p m ph t w]
  by (auto simp: client_calls_def issued_append)

lemma read_generate_reply: "read_response (generate_reply s) = Inr (PStr s)"
  by (simp add: read_response_def generate_reply_def raise_for_status_def extract_output_def
      has_message_def dict_get_def py_def)

section \<open>The fallback to the generate route\<close>

text \<open>
  C7. When the POST to \<open>/api/chat\<close> is answered with status 404, \<open>inference\<close> issues exactly
  two POSTs: the chat request and then one request to \<open>/api/generate\<close> with the same
  model and prompt. The 404 itself is not a failure: what the \<open>try\<close> body raises or returns,
  and so what \<open>inference\<close> returns, is decided by the answer to the second POST alone; a
  failure string is returned only when that POST raises or its response cannot be read.
\<close>

theorem chat_404_falls_back:
  assumes "srv (posts w) (chat_request model_name prompt tmo) = Responds resp"
    and "status_code resp = 404"
  shows "issued w (snd (inference srv prompt model_name ph tmo w))
           = [chat_request model_name prompt tmo, generate_request model_name prompt tmo]
       \<and> req_url (generate_request model_name prompt tmo) = MODEL_SERVER_URL @ py ''/api/generate''
       \<and> req_json (generate_request model_name prompt tmo)
           = PDict [(py ''model'', PStr model_name), (py ''prompt'', PStr prompt),
                    (py ''stream'', PBool False)]
       \<and> fst (inference_try srv prompt model_name ph tmo w)
           = (case srv (posts w @ [chat_request model_name prompt tmo])
                       (generate_request model_name prompt tmo) of
                Raises e \<Rightarrow> Inl e
              | Responds resp' \<Rightarrow> read_response resp')
       \<and> fst (inference srv prompt model_name ph tmo w)
           = (case srv (posts w @ [chat_request model_name prompt tmo])
                       (generate_request model_name prompt tmo) of
                Raises e \<Rightarrow> PStr (failure_message model_name tmo e)
              | Responds resp' \<Rightarrow>
                  (case read_response resp' of
                     Inl e \<Rightarrow> PStr (failure_message model_name tmo e)
                   | Inr output \<Rightarrow> output))"
proof -
  have "posts (snd (inference srv prompt model_name ph tmo w))
          = posts w @ [chat_request model_name prompt tmo, generate_request model_name prompt tmo]"
    using assms by (simp add: inference_posts inference_try_posts)
  then have a: "issued w (snd (inference srv prompt model_name ph tmo w))
           = [chat_request model_name prompt tmo, generate_request model_name prompt tmo]"
    by (rule issued_append)
  have b: "fst (inference_try srv prompt model_name ph tmo w)
           = (case srv (posts w @ [chat_request model_name prompt tmo])
                       (generate_request model_name prompt tmo) of
                Raises e \<Rightarrow> Inl e
              | Responds resp' \<Rightarrow> read_response resp')"
    using assms by (simp add: inference_try_log)
  have c: "fst (inference srv prompt model_name ph tmo w)
           = (case srv (posts w @ [chat_request model_name prompt tmo])
                       (generate_request model_name prompt tmo) of
                Raises e \<Rightarrow> PStr (failure_message model_name tmo e)
              | Responds resp' \<Rightarrow>
                  (case read_response resp' of
                     Inl e \<Rightarrow> PStr (failure_message model_name tmo e)
                   | Inr output \<Rightarrow> output))"
    by (simp add: inference_fst b split: post_result.splits)
  show ?thesis
    using a b c by (simp add: generate_request_def generate_url_def generate_payload_def)
qed

theorem chat_404_falls_back_witness:
  "generate_only (py ''Hi'') (posts start) (chat_request (py ''m'') (py ''Why?'') 1000)
     = Responds not_found
   \<and> status_code not_found = 404
   \<and> issued start (snd (inference (generate_only (py ''Hi'')) (py ''Why?'') (py ''m'') None 1000 start))
       = [chat_request (py ''m'') (py ''Why?'') 1000, generate_request (py ''m'') (py ''Why?'') 1000]
   \<and> fst (inference (generate_only (py ''Hi'')) (py ''Why?'') (py ''m'') None 1000 start)
       = PStr (py ''Hi'')"
proof -
  have a: "generate_only (py ''Hi'') (posts start) (chat_request (py ''m'') (py ''Why?'') 1000)
     = Responds not_found"
    by (simp add: generate_only_def chat_request_def)
  have b: "status_code not_found = 404"
    by (simp add: not_found_def)
  have c: "generate_only (py ''Hi'') (posts start @ [chat_request (py ''m'') (py ''Why?'') 1000])
             (generate_request (py ''m'') (py ''Why?'') 1000) = Responds (generate_reply (py ''Hi''))"
    by (simp add: generate_only_def generate_request_def urls_differ)
  show ?thesis
    using a b chat_404_falls_back [where srv = "generate_only (py ''Hi'')" and w = start
        and model_name = "py ''m''" and prompt = "py ''Why?''" and tmo = 1000 and ph = None, OF a b]
    by (simp add: c read_generate_reply)
qed


section \<open>The summary\<close>

lemma sublist_summary_instruction: "sublist instruction (summary_prompt instruction text)"
  unfolding summary_prompt_def by (rule sublist_appendI)

lemma sublist_summary_text: "sublist text (summary_prompt instruction text)"
proof -
  have "summary_prompt instruction text
      = (py ''Please provide a clear and concise summary of the following text '' @ instruction
          @ py '':'' @ nl @ nl @ py ''Text: '') @ text @ (nl @ nl @ py ''Summary:'')"
    by (simp add: summary_prompt_def)
  then show ?thesis
    by (metis sublist_appendI)
qed

lemma length_instructions_short:
  "map_of length_instructions (py ''short'') = Some (py ''in 2-3 sentences'')"
  by (simp add: length_instructions_def py_def)

text \<open>
  C8. For each of the three length classes \<open>short\<close>, \<open>medium\<close> and \<open>long\<close> and every text,
  \<open>generate_summary\<close> calls the client exactly once, whatever the length of the text; the
  prompt of the call contains the directive of the class and the text itself, and the
  result is what that call returns. The directive of \<open>short\<close> is \<open>in 2-3 sentences\<close>.
\<close>

theorem summary_one_call:
  "(map_of length_instructions summary_length = Some instruction \<longrightarrow>
      fst (generate_summary srv text summary_length model_name ph w)
        = Inr (fst (inference srv (summary_prompt instruction text) model_name ph 1000 w))
      \<and> client_calls w (snd (generate_summary srv text summary_length model_name ph w))
          = [chat_request model_name (summary_prompt instruction text) 1000]
      \<and> sublist instruction (summary_prompt instruction text)
      \<and> sublist text (summary_prompt instruction text))
   \<and> map fst length_instructions = [py ''short'', py ''medium'', py ''long'']
   \<and> map_of length_instructions (py ''short'') = Some (py ''in 2-3 sentences'')"
proof (intro conjI impI)
  assume h: "map_of length_instructions summary_length = Some instruction"
  show "fst (generate_summary srv text summary_length model_name ph w)
        = Inr (fst (inference srv (summary_prompt instruction text) model_name ph 1000 w))"
    by (simp add: generate_summary_def h split: prod.splits)
  have "snd (generate_summary srv text summary_length model_name ph w)
      = snd (inference srv (summary_prompt instruction text) model_name ph 1000 w)"
    by (simp add: generate_summary_def h split: prod.splits)
  then show "client_calls w (snd (generate_summary srv text summary_length model_name ph w))
          = [chat_request model_name (summary_prompt instruction text) 1000]"
    by (simp add: client_calls_inference)
  show "sublist instruction (summary_prompt instruction text)"
    by (rule sublist_summary_instruction)
  show "sublist text (summary_prompt instruction text)"
    by (rule sublist_summary_text)
next
  show "map fst length_instructions = [py ''short'', py ''medium'', py ''long'']"
    by (simp add: length_instructions_def)
  show "map_of length_instructions (py ''short'') = Some (py ''in 2-3 sentences'')"
    by (rule length_instructions_short)
qed

theorem summary_one_call_witness:
  "map_of length_instructions (py ''short'') = Some (py ''in 2-3 sentences'')
   \<and> fst (generate_summary (answering (py ''Hi'')) long_word (py ''short'') (py ''m'') None start)
       = Inr (PStr (py ''Hi''))
   \<and> client_calls start
        (snd (generate_summary (answering (py ''Hi'')) long_word (py ''short'') (py ''m'') None start))
       = [chat_request (py ''m'') (summary_prompt (py ''in 2-3 sentences'') long_word) 1000]
   \<and> sublist (py ''in 2-3 sentences'') (summary_prompt (py ''in 2-3 sentences'') long_word)
   \<and> sublist long_word (summary_prompt (py ''in 2-3 sentences'') long_word)"
  using summary_one_call [of "py ''short''" "py ''in 2-3 sentences''" "answering (py ''Hi'')"
      long_word "py ''m''" None start, THEN conjunct1, rule_format, OF length_instructions_short]
    length_instructions_short
  by (simp add: inference_answering)

section \<open>The progress sink\<close>

lemma faq_loop_cong:
  "posts w = posts v \<Longrightarrow>
   fst (faq_loop srv m ph q n i cs acc w) = fst (faq_loop srv m ph' q n i cs acc v)
   \<and> posts (snd (faq_loop srv m ph q n i cs acc w)) = posts (snd (faq_loop srv m ph' q n i cs acc v))"
proof (induction cs arbitrary: i acc w v)
  case Nil
  then show ?case by (simp add: posts_sink_empty)
next
  case (Cons c cs)
  obtain r w' where rw: "inference srv (section_prompt q c) m None 1000 (sink_info ph (section_info i n) w) = (r, w')"
    by (cases "inference srv (section_prompt q c) m None 1000 (sink_info ph (section_info i n) w)")
  obtain r' v' where rv: "inference srv (section_prompt q c) m None 1000 (sink_info ph' (section_info i n) v) = (r', v')"
    by (cases "inference srv (section_prompt q c) m None 1000 (sink_info ph' (section_info i n) v)")
  have same: "posts (sink_info ph (section_info i n) w) = posts (sink_info ph' (section_info i n) v)"
    using Cons.prems by (simp add: posts_sink_info)
  have r: "r = r'" and p: "posts w' = posts v'"
    using inference_cong [OF same, of srv "section_prompt q c" m None 1000 None] rw rv by simp_all
  have rv': "inference srv (section_prompt q c) m None 1000 (sink_info ph' (section_info i n) v) = (r, v')"
    using rv r by simp
  show ?case
  proof (cases r)
    case (PStr faq)
    show ?thesis
    proof (cases "startswith faq [cross_mark]")
      case True
      then show ?thesis using p PStr by (simp add: rw rv' posts_sink_empty)
    next
      case False
      then show ?thesis using PStr Cons.IH [OF p] by (simp add: rw rv')
    qed
  qed (simp_all add: rw rv' p)
qed

text \<open>
  C9. For every text, every parameter and every server, \<open>generate_summary\<close> and
  \<open>generate_faq_smart\<close> return the same result, and issue the same POSTs, with a progress
  sink as without one: the sink only changes what is shown on the page.
\<close>

theorem sink_does_not_change_result:
  "fst (generate_summary srv text summary_length model_name (Some p) w)
     = fst (generate_summary srv text summary_length model_name None w)
   \<and> posts (snd (generate_summary srv text summary_length model_name (Some p) w))
     = posts (snd (generate_summary srv text summary_length model_name None w))
   \<and> fst (generate_faq_smart srv text num_questions model_name (Some p) w)
     = fst (generate_faq_smart srv text num_questions model_name None w)
   \<and> posts (snd (generate_faq_smart srv text num_questions model_name (Some p) w))
     = posts (snd (generate_faq_smart srv text num_questions model_name None w))"
proof -
  have i: "fst (inference srv pr model_name (Some p) 1000 w) = fst (inference srv pr model_name None 1000 w)
     \<and> posts (snd (inference srv pr model_name (Some p) 1000 w)) = posts (snd (inference srv pr model_name None 1000 w))"
    for pr
    using inference_cong [of w w srv pr model_name "Some p" 1000 None] by simp
  have s: "fst (generate_summary srv text summary_length model_name (Some p) w)
     = fst (generate_summary srv text summary_length model_name None w)
   \<and> posts (snd (generate_summary srv text summary_length model_name (Some p) w))
     = posts (snd (generate_summary srv text summary_length model_name None w))"
  proof (cases "map_of length_instructions summary_length")
    case None
    then show ?thesis by (simp add: generate_summary_def)
  next
    case (Some instruction)
    then show ?thesis
      using i [of "summary_prompt instruction text"]
      by (simp add: generate_summary_def case_prod_beta)
  qed
  have f: "fst (generate_faq_smart srv text num_questions model_name (Some p) w)
     = fst (generate_faq_smart srv text num_questions model_name None w)
   \<and> posts (snd (generate_faq_smart srv text num_questions model_name (Some p) w))
     = posts (snd (generate_faq_smart srv text num_questions model_name None w))"
  proof (cases "3000 < length text")
    case True
    then show ?thesis
      using faq_loop_cong [of w w srv model_name "Some p" _ _ 0 _ "[]" None]
      by (simp add: generate_faq_smart_def Let_def)
  next
    case False
    then show ?thesis
      using i [of "faq_prompt num_questions text"]
      by (simp add: generate_faq_smart_def case_prod_beta)
  qed
  show ?thesis using s f by blast
qed


section \<open>The loop over the chunks\<close>

lemma failure_message_cross: "startswith (failure_message m t e) [cross_mark]"
  by (cases e) (simp_all add: startswith_def error_prefix_def)

lemma client_run_cong:
  "posts w = posts v \<Longrightarrow>
   fst (client_run srv m ps w) = fst (client_run srv m ps v)
   \<and> posts (snd (client_run srv m ps w)) = posts (snd (client_run srv m ps v))"
proof (induction ps arbitrary: w v)
  case Nil
  then show ?case by simp
next
  case (Cons p ps)
  have a: "fst (inference srv p m None 1000 w) = fst (inference srv p m None 1000 v)"
    and b: "posts (snd (inference srv p m None 1000 w)) = posts (snd (inference srv p m None 1000 v))"
    using inference_cong [OF Cons.prems] by simp_all
  show ?case
    using a Cons.IH [OF b] by (simp add: case_prod_beta)
qed

lemma client_run_posts:
  "\<exists>new. posts (snd (client_run srv m ps w)) = posts w @ new
     \<and> filter is_chat new = map (\<lambda>p. chat_request m p 1000) ps"
proof (induction ps arbitrary: w)
  case Nil
  then show ?case by simp
next
  case (Cons p ps)
  obtain new1 where n1: "posts (snd (inference srv p m None 1000 w)) = posts w @ new1"
      "filter is_chat new1 = [chat_request m p 1000]"
    using inference_new_posts by blast
  obtain new2 where n2: "posts (snd (client_run srv m ps (snd (inference srv p m None 1000 w))))
        = posts (snd (inference srv p m None 1000 w)) @ new2"
      "filter is_chat new2 = map (\<lambda>p. chat_request m p 1000) ps"
    using Cons.IH by blast
  have "posts (snd (client_run srv m (p # ps) w)) = posts w @ (new1 @ new2)"
    using n1(1) n2(1) by (simp add: case_prod_beta)
  moreover have "filter is_chat (new1 @ new2) = map (\<lambda>p. chat_request m p 1000) (p # ps)"
    using n1(2) n2(2) by simp
  ultimately show ?case by blast
qed

lemma faq_loop_run:
  assumes "fst (client_run srv m (map (section_prompt q) pre) w) = map PStr outs"
    and "\<forall>out\<in>set outs. \<not> startswith out [cross_mark]"
    and "posts v = posts w"
  shows "\<exists>v1. posts v1 = posts (snd (client_run srv m (map (section_prompt q) pre) w))
     \<and> faq_loop srv m ph q n i (pre @ rest) acc v
         = faq_loop srv m ph q n (i + length pre) rest (acc @ outs) v1"
  using assms
proof (induction pre arbitrary: outs w v acc i)
  case Nil
  then show ?case by (intro exI [of _ v]) simp
next
  case (Cons c pre)
  let ?w' = "snd (inference srv (section_prompt q c) m None 1000 w)"
  let ?iv = "inference srv (section_prompt q c) m None 1000 (sink_info ph (section_info i n) v)"
  obtain out outs' where outs: "outs = out # outs'"
    using Cons.prems(1) by (cases outs) (auto simp: case_prod_beta)
  have first: "fst (inference srv (section_prompt q c) m None 1000 w) = PStr out"
    and others: "fst (client_run srv m (map (section_prompt q) pre) ?w') = map PStr outs'"
    using Cons.prems(1) outs by (simp_all add: case_prod_beta)
  have same: "posts (sink_info ph (section_info i n) v) = posts w"
    using Cons.prems(3) by (simp add: posts_sink_info)
  have r: "fst ?iv = PStr out" and p: "posts (snd ?iv) = posts ?w'"
    using inference_cong [OF same, of srv "section_prompt q c" m None 1000 None] first by simp_all
  have ok: "\<not> startswith out [cross_mark]" and oks: "\<forall>out\<in>set outs'. \<not> startswith out [cross_mark]"
    using Cons.prems(2) outs by simp_all
  from Cons.IH [OF others oks p, of "Suc i" "acc @ [out]"]
  obtain v1 where v1: "posts v1 = posts (snd (client_run srv m (map (section_prompt q) pre) ?w'))"
    "faq_loop srv m ph q n (Suc i) (pre @ rest) (acc @ [out]) (snd ?iv)
       = faq_loop srv m ph q n (Suc i + length pre) rest ((acc @ [out]) @ outs') v1"
    by blast
  have step: "faq_loop srv m ph q n i ((c # pre) @ rest) acc v
      = faq_loop srv m ph q n (Suc i) (pre @ rest) (acc @ [out]) (snd ?iv)"
    using r ok by (cases ?iv) simp
  have "posts v1 = posts (snd (client_run srv m (map (section_prompt q) (c # pre)) w))"
    using v1(1) by (simp add: case_prod_beta)
  moreover have "faq_loop srv m ph q n i ((c # pre) @ rest) acc v
      = faq_loop srv m ph q n (i + length (c # pre)) rest (acc @ outs) v1"
    using step v1(2) outs by simp
  ultimately show ?case by blast
qed

lemma faq_loop_calls:
  "\<exists>k new. posts (snd (faq_loop srv m ph q n i cs acc w)) = posts w @ new
     \<and> filter is_chat new = map (\<lambda>c. chat_request m (section_prompt q c) 1000) (take k cs)
     \<and> k \<le> length cs \<and> (cs \<noteq> [] \<longrightarrow> 0 < k)
     \<and> (\<forall>s. fst (faq_loop srv m ph q n i cs acc w) = Inr (PStr s)
            \<longrightarrow> \<not> startswith s [cross_mark] \<longrightarrow> k = length cs)"
proof (induction cs arbitrary: i acc w)
  case Nil
  have "posts (snd (faq_loop srv m ph q n i [] acc w)) = posts w @ []"
    by (simp add: posts_sink_empty)
  then show ?case by (intro exI [of _ 0] exI [of _ "[]"]) simp
next
  case (Cons c cs)
  let ?iv = "inference srv (section_prompt q c) m None 1000 (sink_info ph (section_info i n) w)"
  obtain r w' where rw: "?iv = (r, w')" by (cases ?iv)
  obtain new1 where n1: "posts w' = posts w @ new1"
      "filter is_chat new1 = [chat_request m (section_prompt q c) 1000]"
    using inference_new_posts [of srv "section_prompt q c" m None 1000 "sink_info ph (section_info i n) w"] rw
    by (auto simp: posts_sink_info)
  have stop: "posts (snd (faq_loop srv m ph q n i (c # cs) acc w)) = posts w' \<Longrightarrow>
       (\<forall>s. fst (faq_loop srv m ph q n i (c # cs) acc w) = Inr (PStr s) \<longrightarrow> startswith s [cross_mark]) \<Longrightarrow>
       ?case"
    using n1 by (intro exI [of _ 1] exI [of _ new1]) auto
  show ?case
  proof (cases r)
    case (PStr faq)
    show ?thesis
    proof (cases "startswith faq [cross_mark]")
      case True
      show ?thesis
        by (rule stop) (simp_all add: rw PStr True posts_sink_empty)
    next
      case False
      then have step: "faq_loop srv m ph q n i (c # cs) acc w
          = faq_loop srv m ph q n (Suc i) cs (acc @ [faq]) w'"
        by (simp add: rw PStr)
      obtain k new2 where ih: "posts (snd (faq_loop srv m ph q n (Suc i) cs (acc @ [faq]) w')) = posts w' @ new2"
        "filter is_chat new2 = map (\<lambda>c. chat_request m (section_prompt q c) 1000) (take k cs)"
        "k \<le> length cs"
        "\<forall>s. fst (faq_loop srv m ph q n (Suc i) cs (acc @ [faq]) w') = Inr (PStr s)
            \<longrightarrow> \<not> startswith s [cross_mark] \<longrightarrow> k = length cs"
        using Cons.IH [of "Suc i" "acc @ [faq]" w'] by blast
      show ?thesis
        using n1 ih step
        by (intro exI [of _ "Suc k"] exI [of _ "new1 @ new2"]) auto
    qed
  qed (rule stop; simp add: rw)+
qed


lemma chunk_text_not_Nil: "chunk_text text max_chars \<noteq> []"
proof (cases "int (length text) \<le> max_chars")
  case True
  then show ?thesis by (simp add: chunk_text_def)
next
  case False
  then have "max_chars < int (length text)" by simp
  from chunk_text_groups [OF this] show ?thesis by auto
qed

lemma generate_faq_smart_long:
  "3000 < length text \<Longrightarrow>
   generate_faq_smart srv text num_questions m ph w
     = faq_loop srv m ph (max 2 (num_questions div int (length (chunk_text text 2500))))
         (length (chunk_text text 2500)) 0 (chunk_text text 2500) [] w"
  by (simp add: generate_faq_smart_def Let_def chunk_text_not_Nil)

lemma client_calls_append: "posts w' = posts w @ new \<Longrightarrow> client_calls w w' = filter is_chat new"
  by (simp add: client_calls_def issued_def)

lemma faq_loop_abort:
  assumes "fst (client_run srv m (map (section_prompt q) pre) w) = map PStr outs"
    and "\<forall>out\<in>set outs. \<not> startswith out [cross_mark]"
    and "fst (inference srv (section_prompt q chunk) m None 1000
               (snd (client_run srv m (map (section_prompt q) pre) w))) = PStr s"
    and "startswith s [cross_mark]"
  shows "fst (faq_loop srv m ph q n 0 (pre @ chunk # post) [] w) = Inr (PStr s)"
    and "posts (snd (faq_loop srv m ph q n 0 (pre @ chunk # post) [] w))
          = posts (snd (inference srv (section_prompt q chunk) m None 1000
                          (snd (client_run srv m (map (section_prompt q) pre) w))))"
    and "client_calls w (snd (faq_loop srv m ph q n 0 (pre @ chunk # post) [] w))
          = map (\<lambda>c. chat_request m (section_prompt q c) 1000) (pre @ [chunk])"
proof -
  let ?w1 = "snd (client_run srv m (map (section_prompt q) pre) w)"
  let ?w2 = "snd (inference srv (section_prompt q chunk) m None 1000 ?w1)"
  obtain v1 where v1: "posts v1 = posts ?w1"
    "faq_loop srv m ph q n 0 (pre @ chunk # post) [] w
       = faq_loop srv m ph q n (0 + length pre) (chunk # post) ([] @ outs) v1"
    using faq_loop_run [OF assms(1,2) refl] by blast
  let ?iv = "inference srv (section_prompt q chunk) m None 1000
               (sink_info ph (section_info (0 + length pre) n) v1)"
  have same: "posts (sink_info ph (section_info (0 + length pre) n) v1) = posts ?w1"
    using v1(1) by (simp add: posts_sink_info)
  have r: "fst ?iv = PStr s" and p: "posts (snd ?iv) = posts ?w2"
    using inference_cong [OF same, of srv "section_prompt q chunk" m None 1000 None] assms(3)
    by simp_all
  have last_step: "faq_loop srv m ph q n (0 + length pre) (chunk # post) ([] @ outs) v1
      = (Inr (PStr s), sink_empty ph (snd ?iv))"
    using r assms(4) by (cases ?iv) simp
  show a: "fst (faq_loop srv m ph q n 0 (pre @ chunk # post) [] w) = Inr (PStr s)"
    using v1(2) last_step by simp
  show b: "posts (snd (faq_loop srv m ph q n 0 (pre @ chunk # post) [] w)) = posts ?w2"
    using v1(2) last_step p by (simp add: posts_sink_empty)
  obtain new1 where n1: "posts ?w1 = posts w @ new1"
      "filter is_chat new1 = map (\<lambda>p. chat_request m p 1000) (map (section_prompt q) pre)"
    using client_run_posts by blast
  obtain new2 where n2: "posts ?w2 = posts ?w1 @ new2"
      "filter is_chat new2 = [chat_request m (section_prompt q chunk) 1000]"
    using inference_new_posts by blast
  have "posts (snd (faq_loop srv m ph q n 0 (pre @ chunk # post) [] w)) = posts w @ (new1 @ new2)"
    using b n1(1) n2(1) by simp
  from client_calls_append [OF this]
  show "client_calls w (snd (faq_loop srv m ph q n 0 (pre @ chunk # post) [] w))
          = map (\<lambda>c. chat_request m (section_prompt q c) 1000) (pre @ [chunk])"
    using n1(2) n2(2) by (simp add: comp_def)
qed

lemma faq_loop_complete:
  assumes "fst (client_run srv m (map (section_prompt q) chunks) w) = map PStr outs"
    and "\<forall>out\<in>set outs. \<not> startswith out [cross_mark]"
  shows "fst (faq_loop srv m ph q n 0 chunks [] w) = Inr (PStr (limit_length (join (nl @ nl) outs)))"
    and "client_calls w (snd (faq_loop srv m ph q n 0 chunks [] w))
          = map (\<lambda>c. chat_request m (section_prompt q c) 1000) chunks"
proof -
  let ?w1 = "snd (client_run srv m (map (section_prompt q) chunks) w)"
  obtain v1 where v1: "posts v1 = posts ?w1"
    "faq_loop srv m ph q n 0 (chunks @ []) [] w
       = faq_loop srv m ph q n (0 + length chunks) [] ([] @ outs) v1"
    using faq_loop_run [OF assms(1,2) refl] by blast
  show "fst (faq_loop srv m ph q n 0 chunks [] w) = Inr (PStr (limit_length (join (nl @ nl) outs)))"
    using v1(2) by simp
  obtain new1 where n1: "posts ?w1 = posts w @ new1"
      "filter is_chat new1 = map (\<lambda>p. chat_request m p 1000) (map (section_prompt q) chunks)"
    using client_run_posts by blast
  have "posts (snd (faq_loop srv m ph q n 0 chunks [] w)) = posts w @ new1"
    using v1 n1(1) by (simp add: posts_sink_empty)
  from client_calls_append [OF this]
  show "client_calls w (snd (faq_loop srv m ph q n 0 chunks [] w))
          = map (\<lambda>c. chat_request m (section_prompt q c) 1000) chunks"
    using n1(2) by (simp add: comp_def)
qed

section \<open>Evaluating the example servers\<close>

lemma inference_try_None:
  "inference_try srv p m None t w =
     (case srv (posts w) (chat_request m p t) of
        Raises e \<Rightarrow> (Inl e, w\<lparr>posts := posts w @ [chat_request m p t]\<rparr>)
      | Responds resp \<Rightarrow>
          if status_code resp = 404
          then (case srv (posts w @ [chat_request m p t]) (generate_request m p t) of
                  Raises e \<Rightarrow>
                    (Inl e, w\<lparr>posts := posts w @ [chat_request m p t, generate_request m p t]\<rparr>)
                | Responds resp' \<Rightarrow>
                    (read_response resp',
                     w\<lparr>posts := posts w @ [chat_request m p t, generate_request m p t]\<rparr>))
          else (read_response resp, w\<lparr>posts := posts w @ [chat_request m p t]\<rparr>))"
  by (simp add: inference_try_def requests_post_def chat_request_def generate_request_def
      split: post_result.splits)

lemma read_chat_reply: "read_response (chat_reply s) = Inr (PStr s)"
  by (simp add: read_response_def chat_reply_def raise_for_status_def extract_output_def
      has_message_def get_message_def dict_get_def py_def)

lemma status_chat_reply: "status_code (chat_reply s) = 200"
  by (simp add: chat_reply_def)

lemma inference_chat_reply:
  "srv (posts w) (chat_request m p t) = Responds (chat_reply s) \<Longrightarrow>
   inference srv p m None t w = (PStr s, w\<lparr>posts := posts w @ [chat_request m p t]\<rparr>)"
  by (simp add: inference_def inference_try_None read_chat_reply status_chat_reply)

lemma inference_try_raises:
  "srv (posts w) (chat_request m p t) = Raises e \<Longrightarrow>
   inference_try srv p m None t w = (Inl e, w\<lparr>posts := posts w @ [chat_request m p t]\<rparr>)"
  by (simp add: inference_try_None)

lemma client_run_answering:
  "client_run (answering s) m ps w
     = (map (\<lambda>p. PStr s) ps, w\<lparr>posts := posts w @ map (\<lambda>p. chat_request m p 1000) ps\<rparr>)"
  by (induction ps arbitrary: w) (simp_all add: inference_answering)

lemma length_three_sentences: "length three_sentences = 6002"
  by (simp add: three_sentences_def)

lemma sentences_three_sentences:
  "sentences_of three_sentences = [replicate 2000 97, replicate 2000 98, replicate 2000 99]"
proof -
  have "replace_char 63 46 (replace_char 33 46 three_sentences) = three_sentences"
    by (simp add: three_sentences_def replace_char_def)
  moreover have "split_on 46 (replicate 2000 97 @ 46 # replicate 2000 98 @ 46 # replicate 2000 99)
      = replicate 2000 97 # split_on 46 (replicate 2000 98 @ 46 # replicate 2000 99)"
    by (rule split_on_append_sep) simp
  moreover have "split_on 46 (replicate 2000 98 @ 46 # replicate 2000 99)
      = replicate 2000 98 # split_on 46 (replicate 2000 99)"
    by (rule split_on_append_sep) simp
  moreover have "split_on 46 (replicate 2000 99) = [replicate 2000 99]"
    by (rule split_on_no_sep) simp
  ultimately show ?thesis
    by (simp add: sentences_of_def three_sentences_def)
qed

lemma chunk_text_three_sentences:
  "chunk_text three_sentences 2500 = [chunk_a, chunk_b, chunk_c]"
  by (simp add: chunk_text_def length_three_sentences sentences_three_sentences strip_letters
      isspace_def chunk_a_def chunk_b_def chunk_c_def)

lemma questions_three_sentences:
  "max 2 (6 div int (length (chunk_text three_sentences 2500))) = 2"
  by (simp add: chunk_text_three_sentences)

lemma flaky_first:
  "client_run flaky (py ''m'') (map (section_prompt 2) [chunk_a]) start
     = (map PStr [py ''Q: x''],
        start\<lparr>posts := [chat_request (py ''m'') (section_prompt 2 chunk_a) 1000]\<rparr>)"
proof -
  have "flaky (posts start) (chat_request (py ''m'') (section_prompt 2 chunk_a) 1000)
      = Responds (chat_reply (py ''Q: x''))"
    by (simp add: flaky_def start_def)
  from inference_chat_reply [where srv = flaky and w = start, OF this] show ?thesis
    by (simp add: start_def)
qed

lemma flaky_second:
  "inference_try flaky (section_prompt 2 chunk_b) (py ''m'') None 1000
     (start\<lparr>posts := [chat_request (py ''m'') (section_prompt 2 chunk_a) 1000]\<rparr>)
   = (Inl (Timeout (py ''Read timed out'')),
      start\<lparr>posts := [chat_request (py ''m'') (section_prompt 2 chunk_a) 1000,
                       chat_request (py ''m'') (section_prompt 2 chunk_b) 1000]\<rparr>)"
proof -
  have "flaky (posts (start\<lparr>posts := [chat_request (py ''m'') (section_prompt 2 chunk_a) 1000]\<rparr>))
          (chat_request (py ''m'') (section_prompt 2 chunk_b) 1000)
      = Raises (Timeout (py ''Read timed out''))"
    by (simp add: flaky_def)
  from inference_try_raises [where srv = flaky
      and w = "start\<lparr>posts := [chat_request (py ''m'') (section_prompt 2 chunk_a) 1000]\<rparr>", OF this]
  show ?thesis
    by simp
qed

lemma crossing_first:
  "client_run crossing (py ''m'') (map (section_prompt 2) [chunk_a]) start
     = (map PStr [py ''Q: x''],
        start\<lparr>posts := [chat_request (py ''m'') (section_prompt 2 chunk_a) 1000]\<rparr>)"
proof -
  have "crossing (posts start) (chat_request (py ''m'') (section_prompt 2 chunk_a) 1000)
      = Responds (chat_reply (py ''Q: x''))"
    by (simp add: crossing_def start_def)
  from inference_chat_reply [where srv = crossing and w = start, OF this] show ?thesis
    by (simp add: start_def)
qed

lemma crossing_second:
  "crossing (posts (start\<lparr>posts := [chat_request (py ''m'') (section_prompt 2 chunk_a) 1000]\<rparr>))
     (chat_request (py ''m'') (section_prompt 2 chunk_b) 1000)
   = Responds (chat_reply (cross_mark # py '' is not an answer''))"
  by (simp add: crossing_def)

lemma json_chat_reply:
  "json_result (chat_reply s)
     = Inr (PDict [(py ''message'',
                    PDict [(py ''role'', PStr (py ''assistant'')), (py ''content'', PStr s)])])"
  by (simp add: chat_reply_def)

lemma extract_chat_document:
  "extract_output (PDict [(py ''message'',
                    PDict [(py ''role'', PStr (py ''assistant'')), (py ''content'', PStr s)])])
     = Inr (PStr s)"
  by (simp add: extract_output_def has_message_def get_message_def dict_get_def py_def)

lemma length_hello: "length (py ''Hello world.'') \<le> 3000"
  by (simp add: py_def)

lemma answering_three:
  "fst (client_run (answering (py ''Q: x'')) (py ''m'')
          (map (section_prompt 2) (chunk_text three_sentences 2500)) start)
     = map PStr [py ''Q: x'', py ''Q: x'', py ''Q: x'']"
  by (simp add: inference_answering chunk_text_three_sentences)

lemma sublist_section_prompt:
  "sublist (py ''generate '' @ str_int q @ py '' frequently asked questions'') (section_prompt q c)"
proof -
  have "section_prompt q c
      = py ''Based on the following text section, ''
        @ (py ''generate '' @ str_int q @ py '' frequently asked questions'')
        @ (py '' (FAQ) with their answers. Format each FAQ as:'' @ nl @ nl
           @ py ''Q: [Question]'' @ nl @ py ''A: [Answer]'' @ nl @ nl @ py ''Text: ''
           @ c @ nl @ nl @ py ''FAQ:'')"
    by (simp add: section_prompt_def faq_format_def py_def)
  then show ?thesis
    by (metis sublist_appendI)
qed

section \<open>A failing chunk\<close>

text \<open>
  C2. In the long-text path, when the calls for the chunks before some chunk succeeded and
  the call for that chunk fails (an exception is raised in the \<open>try\<close> of \<open>inference\<close>, which
  turns it into a failure string), the loop stops there: the result is the failure string
  alone, without the outputs of the earlier chunks, no POST is made after the failing
  call, and the client was called for the chunks up to the failing one only.
\<close>

theorem chunk_failure_aborts:
  assumes "3000 < length text"
    and "chunk_text text 2500 = pre @ chunk # post"
    and "q = max 2 (num_questions div int (length (chunk_text text 2500)))"
    and "client_run srv m (map (section_prompt q) pre) w = (map PStr outs, w1)"
    and "\<forall>out\<in>set outs. \<not> startswith out [cross_mark]"
    and "inference_try srv (section_prompt q chunk) m None 1000 w1 = (Inl e, w2)"
  shows "fst (generate_faq_smart srv text num_questions m ph w)
           = Inr (PStr (failure_message m 1000 e))
       \<and> posts (snd (generate_faq_smart srv text num_questions m ph w)) = posts w2
       \<and> client_calls w (snd (generate_faq_smart srv text num_questions m ph w))
           = map (\<lambda>c. chat_request m (section_prompt q c) 1000) (pre @ [chunk])"
proof -
  have g: "generate_faq_smart srv text num_questions m ph w
      = faq_loop srv m ph q (length (chunk_text text 2500)) 0 (pre @ chunk # post) [] w"
    using generate_faq_smart_long [OF assms(1)] assms(2,3) by simp
  have run: "fst (client_run srv m (map (section_prompt q) pre) w) = map PStr outs"
    and w1: "snd (client_run srv m (map (section_prompt q) pre) w) = w1"
    using assms(4) by simp_all
  have inf: "inference srv (section_prompt q chunk) m None 1000 w1
      = (PStr (failure_message m 1000 e), w2)"
    using assms(6) by (simp add: inference_def)
  have r: "fst (inference srv (section_prompt q chunk) m None 1000
               (snd (client_run srv m (map (section_prompt q) pre) w)))
      = PStr (failure_message m 1000 e)"
    using inf w1 by simp
  show ?thesis
    using faq_loop_abort [OF run assms(5) r failure_message_cross] inf w1
    by (simp add: g)
qed

theorem chunk_failure_aborts_witness:
  "3000 < length three_sentences
   \<and> chunk_text three_sentences 2500 = [chunk_a] @ chunk_b # [chunk_c]
   \<and> client_run flaky (py ''m'') (map (section_prompt 2) [chunk_a]) start
       = (map PStr [py ''Q: x''],
          start\<lparr>posts := [chat_request (py ''m'') (section_prompt 2 chunk_a) 1000]\<rparr>)
   \<and> \<not> startswith (py ''Q: x'') [cross_mark]
   \<and> inference_try flaky (section_prompt 2 chunk_b) (py ''m'') None 1000
        (start\<lparr>posts := [chat_request (py ''m'') (section_prompt 2 chunk_a) 1000]\<rparr>)
       = (Inl (Timeout (py ''Read timed out'')),
          start\<lparr>posts := [chat_request (py ''m'') (section_prompt 2 chunk_a) 1000,
                           chat_request (py ''m'') (section_prompt 2 chunk_b) 1000]\<rparr>)
   \<and> fst (generate_faq_smart flaky three_sentences 6 (py ''m'') None start)
       = Inr (PStr (failure_message (py ''m'') 1000 (Timeout (py ''Read timed out''))))
   \<and> posts (snd (generate_faq_smart flaky three_sentences 6 (py ''m'') None start))
       = [chat_request (py ''m'') (section_prompt 2 chunk_a) 1000,
          chat_request (py ''m'') (section_prompt 2 chunk_b) 1000]
   \<and> client_calls start (snd (generate_faq_smart flaky three_sentences 6 (py ''m'') None start))
       = [chat_request (py ''m'') (section_prompt 2 chunk_a) 1000,
          chat_request (py ''m'') (section_prompt 2 chunk_b) 1000]"
proof -
  have h1: "3000 < length three_sentences"
    by (simp add: length_three_sentences)
  have h2: "chunk_text three_sentences 2500 = [chunk_a] @ chunk_b # [chunk_c]"
    by (simp add: chunk_text_three_sentences)
  have h3: "2 = max 2 (6 div int (length (chunk_text three_sentences 2500)))"
    by (simp add: questions_three_sentences)
  have h5: "\<forall>out\<in>set [py ''Q: x'']. \<not> startswith out [cross_mark]"
    by (simp add: not_cross_qx)
  show ?thesis
    using h1 h2 flaky_first flaky_second not_cross_qx
      chunk_failure_aborts [OF h1 h2 h3 flaky_first h5 flaky_second, of None]
    by simp
qed

text \<open>
  C10. In the long-text path a reply counts as a failure exactly by its first character:
  when the server answers the call for a chunk with status 200 and a document whose model
  output is a string that starts with the cross mark, the loop stops as for a failure and
  that string is the result, although the HTTP exchange succeeded.
\<close>

theorem marked_payload_aborts:
  assumes "3000 < length text"
    and "chunk_text text 2500 = pre @ chunk # post"
    and "q = max 2 (num_questions div int (length (chunk_text text 2500)))"
    and "client_run srv m (map (section_prompt q) pre) w = (map PStr outs, w1)"
    and "\<forall>out\<in>set outs. \<not> startswith out [cross_mark]"
    and "srv (posts w1) (chat_request m (section_prompt q chunk) 1000) = Responds resp"
    and "status_code resp = 200"
    and "json_result resp = Inr result"
    and "extract_output result = Inr (PStr s)"
    and "startswith s [cross_mark]"
  shows "fst (generate_faq_smart srv text num_questions m ph w) = Inr (PStr s)
       \<and> posts (snd (generate_faq_smart srv text num_questions m ph w))
           = posts w1 @ [chat_request m (section_prompt q chunk) 1000]
       \<and> client_calls w (snd (generate_faq_smart srv text num_questions m ph w))
           = map (\<lambda>c. chat_request m (section_prompt q c) 1000) (pre @ [chunk])"
proof -
  have g: "generate_faq_smart srv text num_questions m ph w
      = faq_loop srv m ph q (length (chunk_text text 2500)) 0 (pre @ chunk # post) [] w"
    using generate_faq_smart_long [OF assms(1)] assms(2,3) by simp
  have run: "fst (client_run srv m (map (section_prompt q) pre) w) = map PStr outs"
    and w1: "snd (client_run srv m (map (section_prompt q) pre) w) = w1"
    using assms(4) by simp_all
  have "read_response resp = Inr (PStr s)"
    using assms(7,8,9) by (simp add: read_response_def raise_for_status_def)
  then have inf: "inference srv (section_prompt q chunk) m None 1000 w1
      = (PStr s, w1\<lparr>posts := posts w1 @ [chat_request m (section_prompt q chunk) 1000]\<rparr>)"
    using assms(6,7) by (simp add: inference_def inference_try_None)
  have r: "fst (inference srv (section_prompt q chunk) m None 1000
               (snd (client_run srv m (map (section_prompt q) pre) w))) = PStr s"
    using inf w1 by simp
  show ?thesis
    using faq_loop_abort [OF run assms(5) r assms(10)] inf w1
    by (simp add: g)
qed

theorem marked_payload_aborts_witness:
  "3000 < length three_sentences
   \<and> chunk_text three_sentences 2500 = [chunk_a] @ chunk_b # [chunk_c]
   \<and> client_run crossing (py ''m'') (map (section_prompt 2) [chunk_a]) start
       = (map PStr [py ''Q: x''],
          start\<lparr>posts := [chat_request (py ''m'') (section_prompt 2 chunk_a) 1000]\<rparr>)
   \<and> \<not> startswith (py ''Q: x'') [cross_mark]
   \<and> crossing (posts (start\<lparr>posts := [chat_request (py ''m'') (section_prompt 2 chunk_a) 1000]\<rparr>))
        (chat_request (py ''m'') (section_prompt 2 chunk_b) 1000)
       = Responds (chat_reply (cross_mark # py '' is not an answer''))
   \<and> status_code (chat_reply (cross_mark # py '' is not an answer'')) = 200
   \<and> startswith (cross_mark # py '' is not an answer'') [cross_mark]
   \<and> fst (generate_faq_smart crossing three_sentences 6 (py ''m'') None start)
       = Inr (PStr (cross_mark # py '' is not an answer''))
   \<and> posts (snd (generate_faq_smart crossing three_sentences 6 (py ''m'') None start))
       = [chat_request (py ''m'') (section_prompt 2 chunk_a) 1000,
          chat_request (py ''m'') (section_prompt 2 chunk_b) 1000]
   \<and> client_calls start (snd (generate_faq_smart crossing three_sentences 6 (py ''m'') None start))
       = [chat_request (py ''m'') (section_prompt 2 chunk_a) 1000,
          chat_request (py ''m'') (section_prompt 2 chunk_b) 1000]"
proof -
  have h1: "3000 < length three_sentences"
    by (simp add: length_three_sentences)
  have h2: "chunk_text three_sentences 2500 = [chunk_a] @ chunk_b # [chunk_c]"
    by (simp add: chunk_text_three_sentences)
  have h3: "2 = max 2 (6 div int (length (chunk_text three_sentences 2500)))"
    by (simp add: questions_three_sentences)
  have h5: "\<forall>out\<in>set [py ''Q: x'']. \<not> startswith out [cross_mark]"
    by (simp add: not_cross_qx)
  have h10: "startswith (cross_mark # py '' is not an answer'') [cross_mark]"
    by (simp add: startswith_def)
  show ?thesis
    using h1 h2 crossing_first crossing_second not_cross_qx h10 status_chat_reply
      marked_payload_aborts [OF h1 h2 h3 crossing_first h5 crossing_second status_chat_reply
        json_chat_reply extract_chat_document h10, of None]
    by simp
qed

section \<open>The calls of the FAQ generator\<close>

lemma faq_loop_calls_exact:
  "posts v = posts w \<Longrightarrow>
   \<exists>new. posts (snd (faq_loop srv m ph q n i cs acc v)) = posts v @ new
     \<and> filter is_chat new
         = map (\<lambda>c. chat_request m (section_prompt q c) 1000)
             (take (Suc (length (takeWhile succeeded
                      (fst (client_run srv m (map (section_prompt q) cs) w))))) cs)"
proof (induction cs arbitrary: i acc v w)
  case Nil
  have "posts (snd (faq_loop srv m ph q n i [] acc v)) = posts v @ []"
    by (simp add: posts_sink_empty)
  then show ?case by (intro exI [of _ "[]"]) simp
next
  case (Cons c cs)
  let ?iv = "inference srv (section_prompt q c) m None 1000 (sink_info ph (section_info i n) v)"
  let ?iw = "inference srv (section_prompt q c) m None 1000 w"
  let ?rest = "fst (client_run srv m (map (section_prompt q) cs) (snd ?iw))"
  obtain r v' where rv: "?iv = (r, v')" by (cases ?iv)
  have same: "posts (sink_info ph (section_info i n) v) = posts w"
    using Cons.prems by (simp add: posts_sink_info)
  have r: "fst ?iw = r" and p: "posts v' = posts (snd ?iw)"
    using inference_cong [OF same, of srv "section_prompt q c" m None 1000 None] rv by simp_all
  obtain new1 where n1: "posts v' = posts v @ new1"
      "filter is_chat new1 = [chat_request m (section_prompt q c) 1000]"
    using inference_new_posts [of srv "section_prompt q c" m None 1000 "sink_info ph (section_info i n) v"] rv
    by (auto simp: posts_sink_info)
  have outs: "fst (client_run srv m (section_prompt q c # map (section_prompt q) cs) w) = r # ?rest"
    using r by (simp add: case_prod_beta)
  show ?case
  proof (cases "succeeded r")
    case True
    then obtain faq where faq: "r = PStr faq" "\<not> startswith faq [cross_mark]"
      by (auto simp: succeeded_def split: pyval.splits)
    have step: "faq_loop srv m ph q n i (c # cs) acc v
        = faq_loop srv m ph q n (Suc i) cs (acc @ [faq]) v'"
      using faq by (simp add: rv)
    obtain new2 where n2: "posts (snd (faq_loop srv m ph q n (Suc i) cs (acc @ [faq]) v')) = posts v' @ new2"
        "filter is_chat new2
           = map (\<lambda>c. chat_request m (section_prompt q c) 1000)
               (take (Suc (length (takeWhile succeeded ?rest))) cs)"
      using Cons.IH [OF p, of "Suc i" "acc @ [faq]"] by blast
    have "posts (snd (faq_loop srv m ph q n i (c # cs) acc v)) = posts v @ (new1 @ new2)"
      using step n1(1) n2(1) by simp
    moreover have "filter is_chat (new1 @ new2)
        = map (\<lambda>c. chat_request m (section_prompt q c) 1000)
            (take (Suc (length (takeWhile succeeded
                      (fst (client_run srv m (map (section_prompt q) (c # cs)) w))))) (c # cs))"
      using n1(2) n2(2) True by (simp del: client_run.simps add: outs)
    ultimately show ?thesis by blast
  next
    case False
    have stop: "posts (snd (faq_loop srv m ph q n i (c # cs) acc v)) = posts v'"
      using False by (cases r) (auto simp: rv succeeded_def posts_sink_empty)
    have "posts (snd (faq_loop srv m ph q n i (c # cs) acc v)) = posts v @ new1"
      using stop n1(1) by simp
    moreover have "filter is_chat new1
        = map (\<lambda>c. chat_request m (section_prompt q c) 1000)
            (take (Suc (length (takeWhile succeeded
                      (fst (client_run srv m (map (section_prompt q) (c # cs)) w))))) (c # cs))"
      using n1(2) False by (simp del: client_run.simps add: outs)
    ultimately show ?thesis by blast
  qed
qed

lemma client_run_append:
  "fst (client_run srv m (ps @ p # qs) w)
     = fst (client_run srv m ps w)
       @ fst (inference srv p m None 1000 (snd (client_run srv m ps w)))
       # fst (client_run srv m qs
               (snd (inference srv p m None 1000 (snd (client_run srv m ps w)))))"
  by (induction ps arbitrary: w) (simp_all add: case_prod_beta)

lemma length_client_run: "length (fst (client_run srv m ps w)) = length ps"
  by (induction ps arbitrary: w) (simp_all add: case_prod_beta)

text \<open>
  C3 (as the code has it). For a text of at most 3000 characters \<open>generate_faq_smart\<close>
  calls the client exactly once. For a longer text it chunks the text with
  \<open>max_chars = 2500\<close> and calls the client once per chunk, in chunk order, until a call
  fails: the calls made are exactly those for the chunks up to and including the first
  one whose call does not succeed, and those for all the chunks when every call succeeds.
  The number of chunks called is one more than the number of calls that succeed before the
  first one that does not.
\<close>

theorem one_call_per_chunk_until_failure:
  assumes "q = max 2 (num_questions div int (length (chunk_text text 2500)))"
  shows "(length text \<le> 3000 \<longrightarrow>
            client_calls w (snd (generate_faq_smart srv text num_questions m ph w))
              = [chat_request m (faq_prompt num_questions text) 1000])
       \<and> (3000 < length text \<longrightarrow>
            client_calls w (snd (generate_faq_smart srv text num_questions m ph w))
              = map (\<lambda>c. chat_request m (section_prompt q c) 1000)
                  (take (Suc (length (takeWhile succeeded
                           (fst (client_run srv m
                                   (map (section_prompt q) (chunk_text text 2500)) w)))))
                     (chunk_text text 2500))
            \<and> ((\<forall>out\<in>set (fst (client_run srv m
                                   (map (section_prompt q) (chunk_text text 2500)) w)).
                   succeeded out)
                 \<longrightarrow> client_calls w (snd (generate_faq_smart srv text num_questions m ph w))
                      = map (\<lambda>c. chat_request m (section_prompt q c) 1000)
                          (chunk_text text 2500))
            \<and> (\<forall>pre chunk post.
                   chunk_text text 2500 = pre @ chunk # post
                   \<longrightarrow> (\<forall>out\<in>set (fst (client_run srv m (map (section_prompt q) pre) w)).
                          succeeded out)
                   \<longrightarrow> \<not> succeeded
                           (fst (inference srv (section_prompt q chunk) m None 1000
                                   (snd (client_run srv m (map (section_prompt q) pre) w))))
                   \<longrightarrow> client_calls w (snd (generate_faq_smart srv text num_questions m ph w))
                        = map (\<lambda>c. chat_request m (section_prompt q c) 1000) (pre @ [chunk])))"
proof (intro conjI impI allI)
  assume "length text \<le> 3000"
  then have "snd (generate_faq_smart srv text num_questions m ph w)
      = snd (inference srv (faq_prompt num_questions text) m ph 1000 w)"
    by (simp add: generate_faq_smart_def case_prod_beta)
  then show "client_calls w (snd (generate_faq_smart srv text num_questions m ph w))
        = [chat_request m (faq_prompt num_questions text) 1000]"
    by (simp add: client_calls_inference)
next
  let ?cs = "chunk_text text 2500"
  let ?g = "generate_faq_smart srv text num_questions m ph w"
  let ?outs = "fst (client_run srv m (map (section_prompt q) ?cs) w)"
  let ?call = "\<lambda>c. chat_request m (section_prompt q c) 1000"
  assume long: "3000 < length text"
  have g: "?g = faq_loop srv m ph q (length ?cs) 0 ?cs [] w"
    using generate_faq_smart_long [OF long] assms by simp
  obtain new where h: "posts (snd ?g) = posts w @ new"
      "filter is_chat new = map ?call (take (Suc (length (takeWhile succeeded ?outs))) ?cs)"
    using faq_loop_calls_exact [of w w srv m ph q "length ?cs" 0 ?cs "[]", OF refl] unfolding g
    by blast
  show exact: "client_calls w (snd ?g)
      = map ?call (take (Suc (length (takeWhile succeeded ?outs))) ?cs)"
    using client_calls_append [OF h(1)] h(2) by simp
  {
    assume "\<forall>out\<in>set ?outs. succeeded out"
    then have tw: "takeWhile succeeded ?outs = ?outs"
      by simp
    have "length (takeWhile succeeded ?outs) = length ?cs"
      unfolding tw by (simp add: length_client_run)
    then show "client_calls w (snd ?g) = map ?call ?cs"
      using exact by simp
  }
  {
    fix pre chunk post
    let ?w1 = "snd (client_run srv m (map (section_prompt q) pre) w)"
    let ?pre_outs = "fst (client_run srv m (map (section_prompt q) pre) w)"
    let ?r = "fst (inference srv (section_prompt q chunk) m None 1000 ?w1)"
    assume split: "?cs = pre @ chunk # post"
      and ok: "\<forall>out\<in>set ?pre_outs. succeeded out"
      and fails: "\<not> succeeded ?r"
    have "?outs = ?pre_outs @ ?r
        # fst (client_run srv m (map (section_prompt q) post)
                 (snd (inference srv (section_prompt q chunk) m None 1000 ?w1)))"
      using client_run_append [of srv m "map (section_prompt q) pre" "section_prompt q chunk"
          "map (section_prompt q) post" w]
      by (simp add: split)
    then have tw: "takeWhile succeeded ?outs = ?pre_outs"
      using ok fails by simp
    have "length (takeWhile succeeded ?outs) = length pre"
      unfolding tw by (simp add: length_client_run)
    then show "client_calls w (snd ?g) = map ?call (pre @ [chunk])"
      using exact by (simp add: split)
  }
qed

theorem one_call_per_chunk_until_failure_witness:
  "2 = max 2 (6 div int (length (chunk_text three_sentences 2500)))
   \<and> length (py ''Hello world.'') \<le> 3000
   \<and> client_calls start
        (snd (generate_faq_smart (answering (py ''Q: x'')) (py ''Hello world.'') 5 (py ''m'') None start))
       = [chat_request (py ''m'') (faq_prompt 5 (py ''Hello world.'')) 1000]
   \<and> 3000 < length three_sentences
   \<and> chunk_text three_sentences 2500 = [chunk_a] @ chunk_b # [chunk_c]
   \<and> fst (client_run flaky (py ''m'') (map (section_prompt 2) [chunk_a]) start)
       = [PStr (py ''Q: x'')]
   \<and> succeeded (PStr (py ''Q: x''))
   \<and> \<not> succeeded
         (fst (inference flaky (section_prompt 2 chunk_b) (py ''m'') None 1000
                 (snd (client_run flaky (py ''m'') (map (section_prompt 2) [chunk_a]) start))))
   \<and> client_calls start (snd (generate_faq_smart flaky three_sentences 6 (py ''m'') None start))
       = [chat_request (py ''m'') (section_prompt 2 chunk_a) 1000,
          chat_request (py ''m'') (section_prompt 2 chunk_b) 1000]
   \<and> fst (client_run (answering (py ''Q: x'')) (py ''m'')
            (map (section_prompt 2) (chunk_text three_sentences 2500)) start)
       = [PStr (py ''Q: x''), PStr (py ''Q: x''), PStr (py ''Q: x'')]
   \<and> client_calls start
        (snd (generate_faq_smart (answering (py ''Q: x'')) three_sentences 6 (py ''m'') None start))
       = [chat_request (py ''m'') (section_prompt 2 chunk_a) 1000,
          chat_request (py ''m'') (section_prompt 2 chunk_b) 1000,
          chat_request (py ''m'') (section_prompt 2 chunk_c) 1000]"
proof -
  have h1: "3000 < length three_sentences"
    by (simp add: length_three_sentences)
  have h2: "chunk_text three_sentences 2500 = [chunk_a] @ chunk_b # [chunk_c]"
    by (simp add: chunk_text_three_sentences)
  have h3: "2 = max 2 (6 div int (length (chunk_text three_sentences 2500)))"
    by (simp add: questions_three_sentences)
  have short: "client_calls start
        (snd (generate_faq_smart (answering (py ''Q: x'')) (py ''Hello world.'') 5 (py ''m'') None start))
       = [chat_request (py ''m'') (faq_prompt 5 (py ''Hello world.'')) 1000]"
    using one_call_per_chunk_until_failure [OF refl, THEN conjunct1, THEN mp, OF length_hello] .
  note long_flaky = one_call_per_chunk_until_failure [OF h3, where w = start and srv = flaky
      and m = "py ''m''" and ph = None, THEN conjunct2, THEN mp, OF h1]
  have ok: "\<forall>out\<in>set (fst (client_run flaky (py ''m'') (map (section_prompt 2) [chunk_a]) start)).
         succeeded out"
    unfolding flaky_first by (simp add: succeeded_def not_cross_qx)
  have bad: "\<not> succeeded
         (fst (inference flaky (section_prompt 2 chunk_b) (py ''m'') None 1000
                 (snd (client_run flaky (py ''m'') (map (section_prompt 2) [chunk_a]) start))))"
    unfolding flaky_first
    by (simp del: failure_message.simps
        add: inference_def flaky_second succeeded_def failure_message_cross)
  have two: "client_calls start (snd (generate_faq_smart flaky three_sentences 6 (py ''m'') None start))
       = map (\<lambda>c. chat_request (py ''m'') (section_prompt 2 c) 1000) ([chunk_a] @ [chunk_b])"
    using long_flaky h2 ok bad by blast
  note long_answering = one_call_per_chunk_until_failure [OF h3, where w = start
      and srv = "answering (py ''Q: x'')" and m = "py ''m''" and ph = None,
      THEN conjunct2, THEN mp, OF h1]
  have ok3: "\<forall>out\<in>set (fst (client_run (answering (py ''Q: x'')) (py ''m'')
                           (map (section_prompt 2) (chunk_text three_sentences 2500)) start)).
         succeeded out"
    unfolding answering_three by (simp add: succeeded_def not_cross_qx)
  have three: "client_calls start
        (snd (generate_faq_smart (answering (py ''Q: x'')) three_sentences 6 (py ''m'') None start))
       = map (\<lambda>c. chat_request (py ''m'') (section_prompt 2 c) 1000)
           (chunk_text three_sentences 2500)"
    using long_answering ok3 by blast
  have two': "client_calls start (snd (generate_faq_smart flaky three_sentences 6 (py ''m'') None start))
       = [chat_request (py ''m'') (section_prompt 2 chunk_a) 1000,
          chat_request (py ''m'') (section_prompt 2 chunk_b) 1000]"
    unfolding two by simp
  have three': "client_calls start
        (snd (generate_faq_smart (answering (py ''Q: x'')) three_sentences 6 (py ''m'') None start))
       = [chat_request (py ''m'') (section_prompt 2 chunk_a) 1000,
          chat_request (py ''m'') (section_prompt 2 chunk_b) 1000,
          chat_request (py ''m'') (section_prompt 2 chunk_c) 1000]"
    unfolding three chunk_text_three_sentences by simp
  have first_out: "fst (client_run flaky (py ''m'') (map (section_prompt 2) [chunk_a]) start)
       = [PStr (py ''Q: x'')]"
    unfolding flaky_first by simp
  have good: "succeeded (PStr (py ''Q: x''))"
    by (simp add: succeeded_def not_cross_qx)
  have all_out: "fst (client_run (answering (py ''Q: x'')) (py ''m'')
            (map (section_prompt 2) (chunk_text three_sentences 2500)) start)
       = [PStr (py ''Q: x''), PStr (py ''Q: x''), PStr (py ''Q: x'')]"
    unfolding answering_three by simp
  show ?thesis
    using h3 length_hello short h1 h2 first_out good bad two' all_out three' by blast
qed

text \<open>
  C3 as stated fails when a call fails: \<open>three_sentences\<close> has three chunks, and with a
  server that cannot be reached the client is called for the first chunk only.
\<close>

theorem failed_first_chunk_stops_calls:
  "3000 < length three_sentences
   \<and> chunk_text three_sentences 2500 = [chunk_a, chunk_b, chunk_c]
   \<and> client_calls start (snd (generate_faq_smart unreachable three_sentences 6 (py ''m'') None start))
       = [chat_request (py ''m'') (section_prompt 2 chunk_a) 1000]
   \<and> length (client_calls start
        (snd (generate_faq_smart unreachable three_sentences 6 (py ''m'') None start)))
       \<noteq> length (chunk_text three_sentences 2500)"
proof -
  have h1: "3000 < length three_sentences"
    by (simp add: length_three_sentences)
  have g: "generate_faq_smart unreachable three_sentences 6 (py ''m'') None start
      = faq_loop unreachable (py ''m'') None 2 (length (chunk_text three_sentences 2500)) 0
          ([] @ chunk_a # [chunk_b, chunk_c]) [] start"
    using generate_faq_smart_long [OF h1, of unreachable 6 "py ''m''" None start]
    by (simp del: faq_loop.simps add: chunk_text_three_sentences)
  have run: "fst (client_run unreachable (py ''m'') (map (section_prompt 2) []) start) = map PStr []"
    by simp
  have ok: "\<forall>out\<in>set []. \<not> startswith out [cross_mark]"
    by simp
  have "unreachable (posts start) (chat_request (py ''m'') (section_prompt 2 chunk_a) 1000)
      = Raises (ConnectionError (py ''Connection refused''))"
    by (simp add: unreachable_def)
  from inference_try_raises [where srv = unreachable and w = start, OF this]
  have r: "fst (inference unreachable (section_prompt 2 chunk_a) (py ''m'') None 1000
                 (snd (client_run unreachable (py ''m'') (map (section_prompt 2) []) start)))
      = PStr (failure_message (py ''m'') 1000 (ConnectionError (py ''Connection refused'')))"
    by (simp add: inference_def)
  have c: "client_calls start (snd (generate_faq_smart unreachable three_sentences 6 (py ''m'') None start))
       = [chat_request (py ''m'') (section_prompt 2 chunk_a) 1000]"
    using faq_loop_abort(3) [OF run ok r failure_message_cross, of None
        "length (chunk_text three_sentences 2500)" "[chunk_b, chunk_c]"]
    by (simp del: faq_loop.simps add: g)
  show ?thesis
    using h1 c by (simp add: chunk_text_three_sentences)
qed

text \<open>
  C4. In the long-text path every call of the client asks for the same number of
  questions, \<open>max 2 (num_questions div len(chunks))\<close>, whatever the chunk, and the number is
  written into the prompt. When all the calls succeed, the client is called once for each
  chunk and the result is their outputs joined by a blank line (cut at 10000 characters).
  With three chunks and \<open>num_questions = 6\<close> the number is 2.
\<close>

theorem questions_per_chunk_uniform:
  assumes "3000 < length text"
    and "q = max 2 (num_questions div int (length (chunk_text text 2500)))"
  shows "(\<forall>r\<in>set (client_calls w (snd (generate_faq_smart srv text num_questions m ph w))).
            \<exists>c\<in>set (chunk_text text 2500). r = chat_request m (section_prompt q c) 1000)
       \<and> (\<forall>c. sublist (py ''generate '' @ str_int q @ py '' frequently asked questions'')
                 (section_prompt q c))
       \<and> (fst (client_run srv m (map (section_prompt q) (chunk_text text 2500)) w) = map PStr outs
            \<longrightarrow> (\<forall>out\<in>set outs. \<not> startswith out [cross_mark])
            \<longrightarrow> fst (generate_faq_smart srv text num_questions m ph w)
                  = Inr (PStr (limit_length (join (nl @ nl) outs)))
                \<and> client_calls w (snd (generate_faq_smart srv text num_questions m ph w))
                  = map (\<lambda>c. chat_request m (section_prompt q c) 1000) (chunk_text text 2500))
       \<and> (length (chunk_text text 2500) = 3 \<longrightarrow> num_questions = 6 \<longrightarrow> q = 2)"
proof (intro conjI impI allI)
  let ?cs = "chunk_text text 2500"
  let ?g = "generate_faq_smart srv text num_questions m ph w"
  have g: "?g = faq_loop srv m ph q (length ?cs) 0 ?cs [] w"
    using generate_faq_smart_long [OF assms(1)] assms(2) by simp
  obtain k new where h: "posts (snd ?g) = posts w @ new"
      "filter is_chat new = map (\<lambda>c. chat_request m (section_prompt q c) 1000) (take k ?cs)"
    using faq_loop_calls [of srv m ph q "length ?cs" 0 ?cs "[]" w] unfolding g by blast
  have calls: "client_calls w (snd ?g) = map (\<lambda>c. chat_request m (section_prompt q c) 1000) (take k ?cs)"
    using client_calls_append [OF h(1)] h(2) by simp
  show "\<forall>r\<in>set (client_calls w (snd ?g)). \<exists>c\<in>set ?cs. r = chat_request m (section_prompt q c) 1000"
    unfolding calls using in_set_takeD by fastforce
  show "sublist (py ''generate '' @ str_int q @ py '' frequently asked questions'')
          (section_prompt q c)" for c
    by (rule sublist_section_prompt)
  {
    assume run: "fst (client_run srv m (map (section_prompt q) ?cs) w) = map PStr outs"
      and ok: "\<forall>out\<in>set outs. \<not> startswith out [cross_mark]"
    show "fst ?g = Inr (PStr (limit_length (join (nl @ nl) outs)))"
      using faq_loop_complete(1) [OF run ok] by (simp add: g)
    show "client_calls w (snd ?g) = map (\<lambda>c. chat_request m (section_prompt q c) 1000) ?cs"
      using faq_loop_complete(2) [OF run ok] by (simp add: g)
  }
  show "q = 2" if "length ?cs = 3" "num_questions = 6"
    using that assms(2) by simp
qed

theorem questions_per_chunk_uniform_witness:
  "3000 < length three_sentences
   \<and> 2 = max 2 (6 div int (length (chunk_text three_sentences 2500)))
   \<and> length (chunk_text three_sentences 2500) = 3
   \<and> fst (client_run (answering (py ''Q: x'')) (py ''m'')
            (map (section_prompt 2) (chunk_text three_sentences 2500)) start)
       = map PStr [py ''Q: x'', py ''Q: x'', py ''Q: x'']
   \<and> \<not> startswith (py ''Q: x'') [cross_mark]
   \<and> fst (generate_faq_smart (answering (py ''Q: x'')) three_sentences 6 (py ''m'') None start)
       = Inr (PStr (py ''Q: x'' @ nl @ nl @ py ''Q: x'' @ nl @ nl @ py ''Q: x''))
   \<and> client_calls start
        (snd (generate_faq_smart (answering (py ''Q: x'')) three_sentences 6 (py ''m'') None start))
       = [chat_request (py ''m'') (section_prompt 2 chunk_a) 1000,
          chat_request (py ''m'') (section_prompt 2 chunk_b) 1000,
          chat_request (py ''m'') (section_prompt 2 chunk_c) 1000]
   \<and> sublist (py ''generate '' @ str_int 2 @ py '' frequently asked questions'')
        (section_prompt 2 chunk_a)
   \<and> str_int 2 = py ''2''"
proof -
  have h1: "3000 < length three_sentences"
    by (simp add: length_three_sentences)
  have h2: "2 = max 2 (6 div int (length (chunk_text three_sentences 2500)))"
    by (simp add: questions_three_sentences)
  have ok: "\<forall>out\<in>set [py ''Q: x'', py ''Q: x'', py ''Q: x'']. \<not> startswith out [cross_mark]"
    by (simp add: not_cross_qx)
  note t = questions_per_chunk_uniform [OF h1 h2, of start "answering (py ''Q: x'')" "py ''m''" None
      "[py ''Q: x'', py ''Q: x'', py ''Q: x'']"]
  have a: "fst (generate_faq_smart (answering (py ''Q: x'')) three_sentences 6 (py ''m'') None start)
        = Inr (PStr (limit_length (join (nl @ nl) [py ''Q: x'', py ''Q: x'', py ''Q: x''])))
      \<and> client_calls start
        (snd (generate_faq_smart (answering (py ''Q: x'')) three_sentences 6 (py ''m'') None start))
       = map (\<lambda>c. chat_request (py ''m'') (section_prompt 2 c) 1000) (chunk_text three_sentences 2500)"
    using t answering_three ok by blast
  have b: "sublist (py ''generate '' @ str_int 2 @ py '' frequently asked questions'')
        (section_prompt 2 chunk_a)"
    using t by blast
  have lim: "limit_length (py ''Q: x'' @ nl @ nl @ py ''Q: x'' @ nl @ nl @ py ''Q: x'')
      = py ''Q: x'' @ nl @ nl @ py ''Q: x'' @ nl @ nl @ py ''Q: x''"
    by (simp add: limit_length_take py_def nl_def)
  have d: "str_int 2 = py ''2''"
    by (simp add: str_int_def str_nat.simps py_def)
  show ?thesis
    using h1 h2 a b d not_cross_qx answering_three
    by (simp add: lim chunk_text_three_sentences)
qed

end
